theory Spec2Isabelle
  imports Main
begin

section \<open>The title-level logic of \<open>scripts/gendoc.py\<close>\<close>

text \<open>
  This theory embeds the three functions of \<open>gendoc.py\<close> that carry logic:
  \<open>load_with_adjusted_titles\<close> (lines 37-114), \<open>get_rst\<close> (lines 117-151) and
  \<open>fix_relative_titles\<close> (lines 177-225).

  Conventions of the embedding.
  \<^item> A Python byte string is a \<open>string\<close> (a \<open>char list\<close>); a text line keeps its
    terminating newline, as the lines of a Python file iterator do.
  \<^item> \<open>title_styles\<close>, in Python a list of one-character strings, is a list of
    characters. The three relative styles are characters too.
  \<^item> Integers that Python computes with (\<open>title_level\<close>, \<open>adjusted_level\<close>) are
    \<open>int\<close>; positions in lists and line counters are \<open>nat\<close>.
  \<^item> Every exception is a value of type \<open>error\<close>; a function that can raise returns
    \<open>error + 'a\<close> with \<open>Inl\<close> for the exception.
  \<^item> The \<open>print\<close> statements (the progress line of \<open>get_rst\<close>, the warning of
    lines 65-67) write to standard output only; they change neither a returned value
    nor the control flow and are left out.
\<close>

subsection \<open>File-reference trees and errors\<close>

text \<open>
  A \<open>files\<close> entry of a build target, as the YAML loader hands it over: a string, a
  dictionary, a list, or any other YAML value (kept by its printed form). A dictionary
  is the association list of its items; its keys are the title levels.
\<close>

datatype file_info =
    FStr string
  | FDict "(int \<times> file_info) list"
  | FList "file_info list"
  | FOther string

datatype error =
    RegexError
      \<comment> \<open>\<open>re.compile\<close> of \<open>^[]{3,}$\<close>: an empty character class\<close>
  | TypeErrorLenNone
      \<comment> \<open>line 52: \<open>len(None)\<close>\<close>
  | IndexError
      \<comment> \<open>a subscript out of range\<close>
  | ValueError
      \<comment> \<open>\<open>list.index\<close> of a value that is not in the list\<close>
  | KeyError
      \<comment> \<open>a dictionary subscript with an absent key\<close>
  | IOError string
      \<comment> \<open>line 121: \<open>open\<close> of a path that does not exist\<close>
  | BadTitleLevel string nat char string char
      \<comment> \<open>lines 73-80: file name, reported line number, style of the line, the style
          table, the style of the previous title level\<close>
  | SubTitleTooLow string nat
      \<comment> \<open>lines 90-95: file name, reported line number\<close>
  | MissingNewlines string
      \<comment> \<open>lines 130-133: file name\<close>
  | BadFileEntry file_info
      \<comment> \<open>lines 148-151: the entry\<close>
  | CannotGoLower
      \<comment> \<open>lines 204-207\<close>
  | CannotGoHigher
      \<comment> \<open>lines 213-216\<close>
  | UnknownRelativeChar char
      \<comment> \<open>lines 219-221\<close>

subsection \<open>The Python primitives used\<close>

text \<open>\<open>xs.index(x)\<close>: the first position of \<open>x\<close>; \<open>None\<close> stands for ValueError.\<close>

fun py_index :: "'a list \<Rightarrow> 'a \<Rightarrow> nat option" where
  "py_index [] x = None"
| "py_index (y # ys) x =
     (if y = x then Some 0
      else (case py_index ys x of None \<Rightarrow> None | Some n \<Rightarrow> Some (Suc n)))"

text \<open>
  \<open>xs[i]\<close> for a Python integer \<open>i\<close>: a negative index counts from the end;
  \<open>None\<close> stands for IndexError.
\<close>

definition py_get :: "'a list \<Rightarrow> int \<Rightarrow> 'a option" where
  "py_get xs i =
     (if 0 \<le> i \<and> i < int (length xs) then Some (xs ! nat i)
      else if i < 0 \<and> - int (length xs) \<le> i then Some (xs ! nat (int (length xs) + i))
      else None)"

text \<open>\<open>line.replace(old, new)\<close> for one-character \<open>old\<close> and \<open>new\<close>.\<close>

definition str_replace :: "char \<Rightarrow> char \<Rightarrow> string \<Rightarrow> string" where
  "str_replace old new line = map (\<lambda>c. if c = old then new else c) line"

text \<open>
  \<open>re.compile("^[" + re.escape(chars) + "]{3,}$").match(line)\<close>: at least three
  characters, all of the class, up to the end of the string; Python's \<open>$\<close> also
  matches just before a newline that ends the string.
\<close>

definition class_run :: "string \<Rightarrow> string \<Rightarrow> bool" where
  "class_run chars s = (3 \<le> length s \<and> list_all (\<lambda>c. c \<in> set chars) s)"

definition regex_match :: "string \<Rightarrow> string \<Rightarrow> bool" where
  "regex_match chars line =
     (class_run chars line \<or>
      (line \<noteq> [] \<and> last line = CHR 0x0A \<and> class_run chars (butlast line)))"

text \<open>
  The lines of a file, as iterating over the file object or \<open>readlines()\<close> gives
  them: each line ends with its newline, but for a last line that has none.
\<close>

fun file_lines :: "string \<Rightarrow> string list" where
  "file_lines [] = []"
| "file_lines (c # cs) =
     (if c = CHR 0x0A then [c] # file_lines cs
      else (case file_lines cs of [] \<Rightarrow> [[c]] | l # ls \<Rightarrow> (c # l) # ls))"

subsection \<open>\<open>load_with_adjusted_titles\<close>\<close>

text \<open>The local variables of the function that live across loop iterations.\<close>

record scan_state =
  rst_lines :: "string list"
  prev_line_title_level :: nat
  file_offset :: "nat option"
  prev_non_title_line :: "string option"

definition init_state :: scan_state where
  "init_state =
     \<lparr> rst_lines = [], prev_line_title_level = 0, file_offset = None,
       prev_non_title_line = None \<rparr>"

text \<open>Lines 48-50 and 53-55: the line is kept as it is and remembered.\<close>

definition pass_through :: "string \<Rightarrow> scan_state \<Rightarrow> scan_state" where
  "pass_through line st =
     st\<lparr> rst_lines := rst_lines st @ [line], prev_non_title_line := Some line \<rparr>"

text \<open>
  Lines 57-112: the line is a title underline. \<open>i\<close> is the loop counter of
  \<open>enumerate(file_stream, 1)\<close>.
\<close>

definition adjust_title ::
  "string \<Rightarrow> int \<Rightarrow> string \<Rightarrow> nat \<Rightarrow> string \<Rightarrow> scan_state \<Rightarrow> error + scan_state" where
  "adjust_title filename title_level title_styles i line st =
     (case line of
        [] \<Rightarrow> Inl IndexError
      | line_title_style # _ \<Rightarrow>
     (case py_index title_styles line_title_style of
        None \<Rightarrow> Inl ValueError
      | Some line_title_level \<Rightarrow>
     (let offset = (case file_offset st of None \<Rightarrow> line_title_level | Some k \<Rightarrow> k) in
      if int (prev_line_title_level st) - int line_title_level < - 1 then
        (case py_get title_styles (int (prev_line_title_level st)) of
           None \<Rightarrow> Inl IndexError
         | Some prev_style \<Rightarrow>
             Inl (BadTitleLevel filename (i + 1) line_title_style title_styles prev_style))
      else
     (let adjusted_level = title_level + int line_title_level - int offset in
      if adjusted_level \<ge> int (length title_styles) then
        Inl (SubTitleTooLow filename (i + 1))
      else if adjusted_level = int line_title_level then
        Inr (st\<lparr> rst_lines := rst_lines st @ [line],
                 prev_line_title_level := line_title_level,
                 file_offset := Some offset \<rparr>)
      else
        (case py_get title_styles adjusted_level of
           None \<Rightarrow> Inl IndexError
         | Some new_style \<Rightarrow>
             Inr (st\<lparr> rst_lines := rst_lines st @ [str_replace line_title_style new_style line],
                      prev_line_title_level := line_title_level,
                      file_offset := Some offset \<rparr>))))))"

text \<open>The body of the loop of lines 45-112, for the line with counter \<open>i\<close>.\<close>

definition loop_body ::
  "string \<Rightarrow> int \<Rightarrow> string \<Rightarrow> nat \<Rightarrow> string \<Rightarrow> scan_state \<Rightarrow> error + scan_state" where
  "loop_body filename title_level title_styles i line st =
     (if \<not> regex_match title_styles line then Inr (pass_through line st)
      else
        (case prev_non_title_line st of
           None \<Rightarrow> Inl TypeErrorLenNone
         | Some p \<Rightarrow>
             if length p > length line then Inr (pass_through line st)
             else adjust_title filename title_level title_styles i line st))"

fun scan_lines ::
  "string \<Rightarrow> int \<Rightarrow> string \<Rightarrow> nat \<Rightarrow> string list \<Rightarrow> scan_state \<Rightarrow> error + scan_state" where
  "scan_lines filename title_level title_styles i [] st = Inr st"
| "scan_lines filename title_level title_styles i (line # rest) st =
     (case loop_body filename title_level title_styles i line st of
        Inl e \<Rightarrow> Inl e
      | Inr st' \<Rightarrow> scan_lines filename title_level title_styles (Suc i) rest st')"

text \<open>
  The function itself; \<open>file_stream\<close> is the list of the lines that the open file
  yields.
\<close>

definition load_with_adjusted_titles ::
  "string \<Rightarrow> string list \<Rightarrow> int \<Rightarrow> string \<Rightarrow> error + string" where
  "load_with_adjusted_titles filename file_stream title_level title_styles =
     (if title_styles = [] then Inl RegexError
      else
        (case scan_lines filename title_level title_styles 1 file_stream init_state of
           Inl e \<Rightarrow> Inl e
         | Inr st \<Rightarrow> Inr (concat (rst_lines st))))"

text \<open>
  What holds of the variables at the head of every iteration: the previous title level
  is a position of the table; the offset, once set, is 0 or 1 (the first title passed
  the check of line 72 against the initial level 0); and a title has been seen only
  after an ordinary line.
\<close>

definition scan_inv :: "string \<Rightarrow> scan_state \<Rightarrow> bool" where
  "scan_inv title_styles st =
     (prev_line_title_level st < length title_styles \<and>
      (case file_offset st of
         None \<Rightarrow> prev_line_title_level st = 0
       | Some k \<Rightarrow> k \<le> 1 \<and> k < length title_styles \<and> prev_non_title_line st \<noteq> None))"

text \<open>
  The title level that the loop finds for each line (lines 47, 52 and 58), with
  \<open>None\<close> for a line that it passes through; \<open>prev\<close> is the ordinary line remembered
  so far. It does not depend on the target level. (A marker line that comes before any
  ordinary line is not covered: there the loop raises, see \<open>loop_body\<close>.)
\<close>

fun line_levels :: "string \<Rightarrow> string option \<Rightarrow> string list \<Rightarrow> nat option list" where
  "line_levels title_styles prev [] = []"
| "line_levels title_styles prev (line # rest) =
     (if regex_match title_styles line \<and>
         (case prev of None \<Rightarrow> False | Some p \<Rightarrow> length p \<le> length line)
      then py_index title_styles (hd line) # line_levels title_styles prev rest
      else None # line_levels title_styles (Some line) rest)"

text \<open>The levels of the titles of a fragment, in the order of the lines.\<close>

fun levels_of :: "nat option list \<Rightarrow> nat list" where
  "levels_of [] = []"
| "levels_of (None # lvs) = levels_of lvs"
| "levels_of (Some l # lvs) = l # levels_of lvs"

definition title_levels :: "string \<Rightarrow> string list \<Rightarrow> nat list" where
  "title_levels title_styles lines = levels_of (line_levels title_styles None lines)"

text \<open>
  The condition of line 72 along a sequence of title levels: each level is at most one
  more than the level before it, the first one at most one more than \<open>prev\<close>.
\<close>

fun descent_ok :: "nat \<Rightarrow> nat list \<Rightarrow> bool" where
  "descent_ok prev [] = True"
| "descent_ok prev (l # ls) = (l \<le> prev + 1 \<and> descent_ok l ls)"

text \<open>
  The transform as the specification words it: a title line of level \<open>l\<close> gets the
  style at position \<open>l + d\<close> of the table, for one offset \<open>d\<close> per fragment; an
  ordinary line stays.
\<close>

definition shifted_line :: "string \<Rightarrow> int \<Rightarrow> string \<Rightarrow> nat option \<Rightarrow> string" where
  "shifted_line title_styles d line lv =
     (case lv of
        None \<Rightarrow> line
      | Some l \<Rightarrow> str_replace (hd line) (title_styles ! nat (int l + d)) line)"

text \<open>
  What a list of strings must be like to be the lines of a file: no line is empty, a
  newline stands at the end of a line only, and only the last line may lack it.
\<close>

fun lines_ok :: "string list \<Rightarrow> bool" where
  "lines_ok [] = True"
| "lines_ok [l] = (l \<noteq> [] \<and> CHR 0x0A \<notin> set (butlast l))"
| "lines_ok (l # m # ms) =
     (l \<noteq> [] \<and> CHR 0x0A \<notin> set (butlast l) \<and> last l = CHR 0x0A \<and> lines_ok (m # ms))"

text \<open>
  The position that Python reads for the subscript \<open>i\<close> of a sequence of length \<open>n\<close>,
  and a title line as the loop writes it for the target level and the offset \<open>k\<close>.
\<close>

definition py_pos :: "nat \<Rightarrow> int \<Rightarrow> nat" where
  "py_pos n i = nat (if i < 0 then int n + i else i)"

definition adjusted_line :: "string \<Rightarrow> int \<Rightarrow> nat \<Rightarrow> string \<Rightarrow> nat option \<Rightarrow> string" where
  "adjusted_line title_styles title_level k line lv =
     (case lv of
        None \<Rightarrow> line
      | Some l \<Rightarrow>
          str_replace (hd line)
            (title_styles ! py_pos (length title_styles) (title_level + int l - int k)) line)"

subsection \<open>\<open>get_rst\<close>\<close>

text \<open>\<open>rst[-2:] != "\n\n"\<close> of line 129.\<close>

definition ends_with_two_newlines :: "string \<Rightarrow> bool" where
  "ends_with_two_newlines rst =
     (2 \<le> length rst \<and> drop (length rst - 2) rst = [CHR 0x0A, CHR 0x0A])"

text \<open>
  The files under \<open>spec_dir\<close> are a map from paths to contents. A dictionary node is
  walked over its sorted keys (line 137), each looked up in the dictionary (line 140);
  in the association list the first item of a key is the dictionary's.
\<close>

text \<open>An entry of a dictionary node is smaller than the node (for the termination below).\<close>

lemma map_of_size_less:
  "map_of d l = Some f \<Longrightarrow> size f < Suc (size_list (size_prod (\<lambda>_. 0) size) d)"
  by (induction d) (auto split: if_splits)

function
  get_rst :: "(string \<rightharpoonup> string) \<Rightarrow> file_info \<Rightarrow> int \<Rightarrow> string \<Rightarrow> string \<Rightarrow> bool
     \<Rightarrow> error + string"
and get_rst_dict :: "(string \<rightharpoonup> string) \<Rightarrow> (int \<times> file_info) list \<Rightarrow> int list \<Rightarrow> string
     \<Rightarrow> string \<Rightarrow> bool \<Rightarrow> error + string list"
and get_rst_list :: "(string \<rightharpoonup> string) \<Rightarrow> file_info list \<Rightarrow> int \<Rightarrow> string \<Rightarrow> string \<Rightarrow> bool
     \<Rightarrow> error + string list"
where
  "get_rst fs (FStr name) title_level title_styles spec_dir adjust_titles =
     (case fs (spec_dir @ name) of
        None \<Rightarrow> Inl (IOError (spec_dir @ name))
      | Some content \<Rightarrow>
          (case (if adjust_titles
                 then load_with_adjusted_titles name (file_lines content) title_level title_styles
                 else Inr content) of
             Inl e \<Rightarrow> Inl e
           | Inr rst \<Rightarrow>
               if \<not> ends_with_two_newlines rst then Inl (MissingNewlines name)
               else Inr rst))"
| "get_rst fs (FDict d) title_level title_styles spec_dir adjust_titles =
     (case get_rst_dict fs d (sort (remdups (map fst d))) title_styles spec_dir adjust_titles of
        Inl e \<Rightarrow> Inl e
      | Inr rst \<Rightarrow> Inr (concat rst))"
| "get_rst fs (FList fl) title_level title_styles spec_dir adjust_titles =
     (case get_rst_list fs fl title_level title_styles spec_dir adjust_titles of
        Inl e \<Rightarrow> Inl e
      | Inr rst \<Rightarrow> Inr (concat rst))"
| "get_rst fs (FOther v) title_level title_styles spec_dir adjust_titles =
     Inl (BadFileEntry (FOther v))"
| "get_rst_dict fs d [] title_styles spec_dir adjust_titles = Inr []"
| "get_rst_dict fs d (l # levels) title_styles spec_dir adjust_titles =
     (case map_of d l of
        None \<Rightarrow> Inl KeyError
      | Some f \<Rightarrow>
          (case get_rst fs f l title_styles spec_dir adjust_titles of
             Inl e \<Rightarrow> Inl e
           | Inr r \<Rightarrow>
               (case get_rst_dict fs d levels title_styles spec_dir adjust_titles of
                  Inl e \<Rightarrow> Inl e
                | Inr rst \<Rightarrow> Inr (r # rst))))"
| "get_rst_list fs [] title_level title_styles spec_dir adjust_titles = Inr []"
| "get_rst_list fs (f # fl) title_level title_styles spec_dir adjust_titles =
     (case get_rst fs f title_level title_styles spec_dir adjust_titles of
        Inl e \<Rightarrow> Inl e
      | Inr r \<Rightarrow>
          (case get_rst_list fs fl title_level title_styles spec_dir adjust_titles of
             Inl e \<Rightarrow> Inl e
           | Inr rst \<Rightarrow> Inr (r # rst)))"
  by pat_completeness auto

termination
  by (relation "inv_image (less_than <*lex*> less_than <*lex*> less_than)
        (\<lambda>x. case x of
           Inl (fs, f, r) \<Rightarrow> (size f, Suc 0, 0)
         | Inr (Inl (fs, d, levels, r)) \<Rightarrow> (size (FDict d), 0, length levels)
         | Inr (Inr (fs, fl, r)) \<Rightarrow> (size (FList fl), 0, length fl))")
     (auto dest: map_of_size_less)

text \<open>
  The outcome of a loop that appends one result per round and is left by the first
  exception: the results in order, or that exception.
\<close>

fun loop_results :: "(error + 'a) list \<Rightarrow> error + 'a list" where
  "loop_results [] = Inr []"
| "loop_results (Inl e # rs) = Inl e"
| "loop_results (Inr x # rs) = (case loop_results rs of Inl e \<Rightarrow> Inl e | Inr xs \<Rightarrow> Inr (x # xs))"

subsection \<open>\<open>fix_relative_titles\<close>\<close>

text \<open>
  What the function reads of \<open>target\<close>: \<open>target["title_styles"]\<close> and the three
  entries of \<open>target["relative_title_styles"]\<close>.
\<close>

record target =
  target_title_styles :: string
  rel_subtitle :: char
  rel_sametitle :: char
  rel_supertitle :: char

definition relative_title_chars :: "target \<Rightarrow> string" where
  "relative_title_chars tg = [rel_subtitle tg, rel_sametitle tg, rel_supertitle tg]"

text \<open>
  Lines 194-225, the body of the loop: the line written to \<open>outfile\<close> and the new
  \<open>current_title_style\<close>.
\<close>

definition fix_line :: "target \<Rightarrow> char option \<Rightarrow> string \<Rightarrow> error + (string \<times> char option)" where
  "fix_line tg current_title_style line =
     (if \<not> regex_match (relative_title_chars tg) line then
        (if regex_match (target_title_styles tg) line then
           (case line of
              [] \<Rightarrow> Inl IndexError
            | c # _ \<Rightarrow> Inr (line, Some c))
         else Inr (line, current_title_style))
      else
        (case line of
           [] \<Rightarrow> Inl IndexError
         | line_char # _ \<Rightarrow>
        (case (case current_title_style of
                 None \<Rightarrow> None
               | Some s \<Rightarrow> py_index (target_title_styles tg) s) of
           None \<Rightarrow> Inl ValueError
         | Some current_title_level \<Rightarrow>
        (case (if line_char = rel_subtitle tg then
                 (if current_title_level + 1 = length (target_title_styles tg)
                  then Inl CannotGoLower
                  else (case py_get (target_title_styles tg) (int current_title_level + 1) of
                          None \<Rightarrow> Inl IndexError | Some r \<Rightarrow> Inr r))
               else if line_char = rel_sametitle tg then
                 (case py_get (target_title_styles tg) (int current_title_level) of
                    None \<Rightarrow> Inl IndexError | Some r \<Rightarrow> Inr r)
               else if line_char = rel_supertitle tg then
                 (if int current_title_level - 1 < 0
                  then Inl CannotGoHigher
                  else (case py_get (target_title_styles tg) (int current_title_level - 1) of
                          None \<Rightarrow> Inl IndexError | Some r \<Rightarrow> Inr r))
               else Inl (UnknownRelativeChar line_char)) of
           Inl e \<Rightarrow> Inl e
         | Inr replacement_char \<Rightarrow>
             Inr (str_replace line_char replacement_char line, current_title_style)))))"

text \<open>
  The loop of line 193. The result is what has been written to \<open>outfile\<close>, and the
  exception that ended the loop, if one did.
\<close>

fun fix_lines :: "target \<Rightarrow> char option \<Rightarrow> string list \<Rightarrow> string list \<times> error option" where
  "fix_lines tg current_title_style [] = ([], None)"
| "fix_lines tg current_title_style (line # rest) =
     (case fix_line tg current_title_style line of
        Inl e \<Rightarrow> ([], Some e)
      | Inr (out, style') \<Rightarrow>
          (case fix_lines tg style' rest of (outs, r) \<Rightarrow> (out # outs, r)))"

text \<open>The value of \<open>current_title_style\<close> once the loop has passed the given lines.\<close>

fun current_style_after :: "target \<Rightarrow> char option \<Rightarrow> string list \<Rightarrow> char option" where
  "current_style_after tg current_title_style [] = current_title_style"
| "current_style_after tg current_title_style (line # rest) =
     current_style_after tg
       (case fix_line tg current_title_style line of
          Inl e \<Rightarrow> current_title_style
        | Inr (out, style') \<Rightarrow> style')
       rest"

definition fix_relative_titles :: "target \<Rightarrow> string \<Rightarrow> string \<times> error option" where
  "fix_relative_titles tg infile =
     (if target_title_styles tg = [] then ([], Some RegexError)
      else (case fix_lines tg None (file_lines infile) of (outs, r) \<Rightarrow> (concat outs, r)))"

section \<open>Facts about the primitives\<close>

lemma py_index_SomeD: "py_index xs x = Some n \<Longrightarrow> n < length xs \<and> xs ! n = x"
  by (induction xs arbitrary: n) (auto split: if_splits option.splits)

lemma py_index_mem: "x \<in> set xs \<Longrightarrow> \<exists>n. py_index xs x = Some n"
  by (induction xs) auto

lemma py_index_nth: "distinct xs \<Longrightarrow> n < length xs \<Longrightarrow> py_index xs (xs ! n) = Some n"
proof (induction xs arbitrary: n)
  case Nil
  then show ?case by simp
next
  case (Cons y ys)
  show ?case
  proof (cases n)
    case 0
    then show ?thesis by simp
  next
    case (Suc m)
    with Cons.prems have "ys ! m \<noteq> y" "py_index ys (ys ! m) = Some m"
      using Cons.IH [of m] by auto
    with Suc show ?thesis by auto
  qed
qed

lemma py_get_nat: "0 \<le> i \<Longrightarrow> i < int (length xs) \<Longrightarrow> py_get xs i = Some (xs ! nat i)"
  by (simp add: py_get_def)

lemma py_get_neg:
  "i < 0 \<Longrightarrow> - int (length xs) \<le> i \<Longrightarrow> py_get xs i = Some (xs ! nat (int (length xs) + i))"
  by (simp add: py_get_def)

lemma class_run_hd: "class_run chars s \<Longrightarrow> s \<noteq> [] \<and> hd s \<in> set chars"
  by (cases s) (auto simp: class_run_def)

lemma regex_match_hd: "regex_match chars line \<Longrightarrow> line \<noteq> [] \<and> hd line \<in> set chars"
proof -
  assume m: "regex_match chars line"
  show ?thesis
  proof (cases "class_run chars line")
    case True
    then show ?thesis by (rule class_run_hd)
  next
    case False
    with m have ne: "line \<noteq> []" and b: "class_run chars (butlast line)"
      by (auto simp: regex_match_def)
    from b have "butlast line \<noteq> []" "hd (butlast line) \<in> set chars"
      using class_run_hd by blast+
    moreover from this have "hd (butlast line) = hd line"
      by (cases line) (auto split: if_splits)
    ultimately show ?thesis using ne by simp
  qed
qed

lemma regex_match_styles_nonempty: "regex_match chars line \<Longrightarrow> chars \<noteq> []"
  using regex_match_hd by fastforce

lemma regex_match_iff:
  "regex_match chars line \<longleftrightarrow>
     (\<exists>body. (line = body \<or> line = body @ [CHR 0x0A]) \<and> 3 \<le> length body \<and> set body \<subseteq> set chars)"
proof
  assume "regex_match chars line"
  then consider "class_run chars line"
    | "line \<noteq> []" "last line = CHR 0x0A" "class_run chars (butlast line)"
    by (auto simp: regex_match_def)
  then show "\<exists>body. (line = body \<or> line = body @ [CHR 0x0A]) \<and> 3 \<le> length body \<and> set body \<subseteq> set chars"
  proof cases
    case 1
    then show ?thesis by (auto simp: class_run_def list_all_iff)
  next
    case 2
    from 2(1,2) have "line = butlast line @ [CHR 0x0A]"
      using append_butlast_last_id [of line] by simp
    with 2(3) show ?thesis
      unfolding class_run_def list_all_iff by blast
  qed
next
  assume "\<exists>body. (line = body \<or> line = body @ [CHR 0x0A]) \<and> 3 \<le> length body \<and> set body \<subseteq> set chars"
  then obtain body where b: "line = body \<or> line = body @ [CHR 0x0A]"
    and l: "3 \<le> length body" and s: "set body \<subseteq> set chars"
    by blast
  from l s have "class_run chars body"
    by (auto simp: class_run_def list_all_iff)
  with b show "regex_match chars line"
    by (auto simp: regex_match_def)
qed

section \<open>The scan of one fragment\<close>

subsection \<open>A fragment that starts with a marker line\<close>

text \<open>
  Claim C9. When the very first line of a fragment matches the title pattern, no
  ordinary line has been seen, \<open>prev_non_title_line\<close> is still \<open>None\<close>, and the
  comparison of line 52 raises a TypeError (\<open>len(None)\<close>): the line is neither taken
  as a title nor reported with the name of the fragment. This holds for every file
  name, every target level and whatever follows the first line.
\<close>

theorem first_line_title_type_error:
  "regex_match title_styles line \<Longrightarrow>
   load_with_adjusted_titles filename (line # rest) title_level title_styles = Inl TypeErrorLenNone"
  using regex_match_styles_nonempty [of title_styles line]
  by (simp add: load_with_adjusted_titles_def loop_body_def init_state_def)

theorem first_line_title_type_error_witness:
  "regex_match ''=-~+'' ''=====\<newline>'' \<and>
   load_with_adjusted_titles ''intro.rst'' [''=====\<newline>'', ''Title\<newline>'', ''=====\<newline>'', ''\<newline>''] 0 ''=-~+''
     = Inl TypeErrorLenNone"
proof -
  have m: "regex_match ''=-~+'' ''=====\<newline>''"
    by (simp add: regex_match_def class_run_def)
  show ?thesis
    using m first_line_title_type_error [OF m] by simp
qed

subsection \<open>The loop, line by line\<close>

lemma str_replace_same: "str_replace c c line = line"
  by (simp add: str_replace_def map_idI)

lemma scan_lines_append:
  "scan_lines f L ts i (xs @ ys) st =
     (case scan_lines f L ts i xs st of
        Inl e \<Rightarrow> Inl e
      | Inr st' \<Rightarrow> scan_lines f L ts (i + length xs) ys st')"
  by (induction xs arbitrary: i st) (auto split: sum.splits)

lemma loop_body_title:
  "prev_non_title_line st = Some p \<Longrightarrow> regex_match ts line \<Longrightarrow> length p \<le> length line \<Longrightarrow>
   loop_body f L ts i line st = adjust_title f L ts i line st"
  by (simp add: loop_body_def)

lemma loop_body_pass:
  "prev_non_title_line st = Some p \<Longrightarrow> \<not> (regex_match ts line \<and> length p \<le> length line) \<Longrightarrow>
   loop_body f L ts i line st = Inr (pass_through line st)"
  by (auto simp: loop_body_def)

text \<open>The title branch in one formula.\<close>

lemma adjust_title_eq:
  assumes ne: "line \<noteq> []" and ix: "py_index ts (hd line) = Some l"
    and pr: "prev_line_title_level st < length ts"
  shows "adjust_title f L ts i line st =
     (let k = (case file_offset st of None \<Rightarrow> l | Some k \<Rightarrow> k) in
      if prev_line_title_level st + 1 < l
      then Inl (BadTitleLevel f (i + 1) (hd line) ts (ts ! prev_line_title_level st))
      else if int (length ts) \<le> L + int l - int k then Inl (SubTitleTooLow f (i + 1))
      else (case py_get ts (L + int l - int k) of
              None \<Rightarrow> Inl IndexError
            | Some c \<Rightarrow>
                Inr (st\<lparr> rst_lines := rst_lines st @ [str_replace (hd line) c line],
                         prev_line_title_level := l,
                         file_offset := Some k \<rparr>)))"
proof -
  obtain c cs where line: "line = c # cs" using ne by (cases line) auto
  from ix have l: "l < length ts" "ts ! l = hd line"
    using py_index_SomeD by fastforce+
  have same: "py_get ts (int l) = Some (hd line)"
    using l by (simp add: py_get_def)
  have prev: "py_get ts (int (prev_line_title_level st)) = Some (ts ! prev_line_title_level st)"
    using pr by (simp add: py_get_def)
  have lt: "(int (prev_line_title_level st) - int l < - 1) = (prev_line_title_level st + 1 < l)"
    by linarith
  show ?thesis
    unfolding adjust_title_def line list.case
    using ix same prev
    by (simp add: line Let_def lt str_replace_same split: option.splits)
qed

lemma scan_inv_init: "ts \<noteq> [] \<Longrightarrow> scan_inv ts init_state"
  by (simp add: scan_inv_def init_state_def)

lemma loop_body_inv:
  assumes "scan_inv ts st" "loop_body f L ts i line st = Inr st'"
  shows "scan_inv ts st'"
proof (cases "regex_match ts line \<and> (\<exists>p. prev_non_title_line st = Some p \<and> length p \<le> length line)")
  case False
  with assms(2) have "st' = pass_through line st"
    by (auto simp: loop_body_def split: if_splits option.splits)
  with assms(1) show ?thesis
    by (auto simp: scan_inv_def pass_through_def split: option.splits)
next
  case True
  then obtain p where p: "prev_non_title_line st = Some p" "length p \<le> length line"
    and m: "regex_match ts line" by blast
  from m have ne: "line \<noteq> []" and "hd line \<in> set ts" using regex_match_hd by blast+
  then obtain l where ix: "py_index ts (hd line) = Some l" using py_index_mem by fastforce
  from ix have l: "l < length ts" using py_index_SomeD by fastforce
  from assms(1) have pr: "prev_line_title_level st < length ts" by (simp add: scan_inv_def)
  from assms(2) have "adjust_title f L ts i line st = Inr st'"
    using loop_body_title [OF p(1) m p(2)] by simp
  then show ?thesis
    using assms(1) l p(1)
    unfolding adjust_title_eq [OF ne ix pr]
    by (auto simp: scan_inv_def Let_def split: if_splits option.splits)
qed

lemma scan_lines_inv:
  "scan_inv ts st \<Longrightarrow> scan_lines f L ts i xs st = Inr st' \<Longrightarrow> scan_inv ts st'"
proof (induction xs arbitrary: i st)
  case Nil
  then show ?case by simp
next
  case (Cons x xs)
  from Cons.prems(2) obtain st1 where s1: "loop_body f L ts i x st = Inr st1"
    and s2: "scan_lines f L ts (Suc i) xs st1 = Inr st'"
    by (auto split: sum.splits)
  from loop_body_inv [OF Cons.prems(1) s1] have "scan_inv ts st1" .
  from Cons.IH [OF this s2] show ?case .
qed

subsection \<open>Which lines are titles\<close>

text \<open>
  The branch that the loop takes once an ordinary line \<open>p\<close> has been seen. The
  pattern of line 40 is a character class: it lets through every line made of
  characters of the style table, at least three of them, then at most one newline,
  whether or not they are one and the same character. Such a line goes to the title
  branch when it is at least as long as \<open>p\<close>, the last line that was passed through
  (both lengths count the newline); every other line is appended unchanged and
  becomes the remembered ordinary line.
\<close>

lemma loop_body_title_condition:
  assumes "prev_non_title_line st = Some p"
  shows "loop_body filename title_level title_styles i line st =
     (if (\<exists>body. (line = body \<or> line = body @ [CHR 0x0A]) \<and> 3 \<le> length body \<and>
                  set body \<subseteq> set title_styles) \<and>
         length p \<le> length line
      then adjust_title filename title_level title_styles i line st
      else Inr (st\<lparr> rst_lines := rst_lines st @ [line], prev_non_title_line := Some line \<rparr>))"
  using assms
  by (simp add: loop_body_def pass_through_def regex_match_iff [symmetric])

text \<open>
  Claim C3 asks that only a line of one repeated marker character, long enough, is
  taken as a title, and that every other line is passed through unchanged. The rest of
  the loop is written for such a line too: the comment of line 46 shows one, line 57
  takes the first character as the style of the whole line, and lines 109-112 replace
  that one character. The pattern does not hold the loop to it. The line \<open>=~=\<close> is
  not of one repeated character and should be passed through; it is taken as a title
  of style \<open>=\<close> and comes out as \<open>-~-\<close>. The border of a grid table is taken as a
  title of style \<open>+\<close>, and the fragment is refused with the exception of line 73.
\<close>

theorem mixed_marker_line_taken_as_title:
  "load_with_adjusted_titles ''f'' [''ab\<newline>'', ''=~=\<newline>''] 1 ''=-~+'' = Inr ''ab\<newline>-~-\<newline>'' \<and>
   load_with_adjusted_titles ''f'' [''Table\<newline>'', ''+-----+-----+\<newline>''] 0 ''=-~+''
     = Inl (BadTitleLevel ''f'' 3 CHR ''+'' ''=-~+'' CHR ''='')"
  by code_simp

subsection \<open>The check of the title levels (lines 69-81)\<close>

text \<open>
  At a title line whose level is more than one below the previous title level of the
  file, the loop raises the exception of line 73; the number it puts into the message
  is \<open>i + 1\<close>, where \<open>i\<close> already counts the lines from 1.
\<close>

lemma loop_body_bad_level:
  assumes "scan_inv ts st" "prev_non_title_line st = Some p" "regex_match ts line"
    "length p \<le> length line" "py_index ts (hd line) = Some l"
    "prev_line_title_level st + 1 < l"
  shows "loop_body f L ts i line st =
     Inl (BadTitleLevel f (i + 1) (hd line) ts (ts ! prev_line_title_level st))"
proof -
  from assms(3) have ne: "line \<noteq> []" using regex_match_hd by blast
  from assms(1) have pr: "prev_line_title_level st < length ts" by (simp add: scan_inv_def)
  show ?thesis
    using assms(6)
    unfolding loop_body_title [OF assms(2,3,4)] adjust_title_eq [OF ne assms(5) pr]
    by (simp add: Let_def)
qed

text \<open>
  A title that goes up by any number of levels, stays, or goes down by one level is
  never answered with that exception.
\<close>

lemma loop_body_level_ok:
  assumes "scan_inv ts st" "py_index ts (hd line) = Some l" "l \<le> prev_line_title_level st + 1"
  shows "loop_body f L ts i line st \<noteq> Inl (BadTitleLevel f' n c ts' d)"
proof (cases "regex_match ts line \<and> (\<exists>p. prev_non_title_line st = Some p \<and> length p \<le> length line)")
  case False
  then show ?thesis
    by (auto simp: loop_body_def split: option.splits)
next
  case True
  then obtain p where p: "prev_non_title_line st = Some p" "length p \<le> length line"
    and m: "regex_match ts line" by blast
  from m have ne: "line \<noteq> []" using regex_match_hd by blast
  from assms(1) have pr: "prev_line_title_level st < length ts" by (simp add: scan_inv_def)
  show ?thesis
    using assms(3)
    unfolding loop_body_title [OF p(1) m p(2)] adjust_title_eq [OF ne assms(2) pr]
    by (simp add: Let_def split: option.splits)
qed

lemma scan_lines_snoc:
  assumes "scan_lines f L ts 1 pre init_state = Inr st"
  shows "scan_lines f L ts 1 (pre @ line # post) init_state =
     (case loop_body f L ts (Suc (length pre)) line st of
        Inl e \<Rightarrow> Inl e
      | Inr st' \<Rightarrow> scan_lines f L ts (Suc (Suc (length pre))) post st')"
  using assms by (simp add: scan_lines_append)

lemma load_bad_level:
  assumes "scan_lines f L ts 1 pre init_state = Inr st"
    "prev_non_title_line st = Some p" "regex_match ts line"
    "length p \<le> length line" "py_index ts (hd line) = Some l"
    "prev_line_title_level st + 1 < l"
  shows "load_with_adjusted_titles f (pre @ line # post) L ts =
     Inl (BadTitleLevel f (length pre + 2) (hd line) ts (ts ! prev_line_title_level st))"
proof -
  from assms(3) have ts: "ts \<noteq> []" by (rule regex_match_styles_nonempty)
  then have "scan_inv ts st"
    using scan_lines_inv [OF scan_inv_init assms(1)] by simp
  from loop_body_bad_level [OF this assms(2-6), of f L "Suc (length pre)"] show ?thesis
    unfolding load_with_adjusted_titles_def scan_lines_snoc [OF assms(1)]
    using ts by simp
qed

text \<open>
  Claim C4, at a file of four lines. The title of line 4 jumps from level 0 to
  level 2, and the exception is raised; its message names the file and says line 5,
  a line that the file does not have. The claim asks for the number of the offending
  line, which is 4.
\<close>

theorem bad_title_level_reports_next_line:
  "load_with_adjusted_titles ''intro.rst''
     [''Intro\<newline>'', ''=====\<newline>'', ''Deeper\<newline>'', ''~~~~~~\<newline>''] 0 ''=-~+''
   = Inl (BadTitleLevel ''intro.rst'' 5 CHR ''~'' ''=-~+'' CHR ''='')"
  by code_simp

subsection \<open>An adjusted level below zero\<close>

text \<open>
  Claim C5, as the code has it. Let the scan of the lines \<open>pre\<close> have set the offset to
  \<open>k\<close>, and let the next line be a title of level \<open>l\<close> that the check of line 72 lets
  pass (as it does every title that goes up) and whose
  \<open>adjusted_level = title_level + l - k\<close> is negative, which needs \<open>k\<close> above the
  target level, but not below \<open>-len(title_styles)\<close>. Then no exception is raised at
  that line: the scan goes on behind it with the line rewritten to the style at
  position \<open>len(title_styles) + adjusted_level\<close>, which is how Python reads a negative
  subscript. When the title is the last line of the fragment, the function returns
  the text with that rewritten line at its end.
\<close>

theorem negative_adjusted_level_wraps:
  assumes "scan_lines filename title_level title_styles 1 pre init_state = Inr st"
    and "file_offset st = Some k"
    and "prev_non_title_line st = Some p"
    and "regex_match title_styles line" and "length p \<le> length line"
    and "py_index title_styles (hd line) = Some l"
    and "l \<le> prev_line_title_level st + 1"
    and "title_level + int l - int k < 0"
    and "- int (length title_styles) \<le> title_level + int l - int k"
  shows "scan_lines filename title_level title_styles 1 (pre @ line # post) init_state =
     scan_lines filename title_level title_styles (length pre + 2) post
       (st\<lparr> rst_lines := rst_lines st @
                 [str_replace (hd line)
                    (title_styles ! nat (int (length title_styles) + (title_level + int l - int k)))
                    line],
             prev_line_title_level := l \<rparr>) \<and>
   load_with_adjusted_titles filename (pre @ [line]) title_level title_styles =
     Inr (concat (rst_lines st) @
          str_replace (hd line)
            (title_styles ! nat (int (length title_styles) + (title_level + int l - int k)))
            line)"
proof -
  let ?adj = "title_level + int l - int k"
  let ?new = "str_replace (hd line) (title_styles ! nat (int (length title_styles) + ?adj)) line"
  let ?st' = "st\<lparr> rst_lines := rst_lines st @ [?new], prev_line_title_level := l \<rparr>"
  from assms(4) have ts: "title_styles \<noteq> []" and ne: "line \<noteq> []"
    using regex_match_styles_nonempty regex_match_hd by blast+
  have inv: "scan_inv title_styles st"
    using scan_lines_inv [OF scan_inv_init [OF ts] assms(1)] .
  then have pr: "prev_line_title_level st < length title_styles"
    by (simp add: scan_inv_def)
  have get: "py_get title_styles ?adj =
      Some (title_styles ! nat (int (length title_styles) + ?adj))"
    using assms(8,9) by (rule py_get_neg)
  have step: "loop_body filename title_level title_styles i line st = Inr ?st'" for i
    unfolding loop_body_title [OF assms(3,4,5)] adjust_title_eq [OF ne assms(6) pr]
    using assms(2,7,8) get by simp
  have one: "scan_lines filename title_level title_styles 1 (pre @ line # post) init_state =
      scan_lines filename title_level title_styles (length pre + 2) post ?st'" for post
    unfolding scan_lines_snoc [OF assms(1)] step by simp
  have two: "load_with_adjusted_titles filename (pre @ [line]) title_level title_styles =
      Inr (concat (rst_lines st) @ ?new)"
    unfolding load_with_adjusted_titles_def one [of "[]"] using ts by simp
  from one two show ?thesis by blast
qed

text \<open>
  At the target levels 0 and -1 the title \<open>=\<close> of the fragment below has the
  adjusted levels -1 and -2 and gets the styles \<open>+\<close> and \<open>~\<close>.
\<close>

theorem negative_adjusted_level_wraps_witness:
  "load_with_adjusted_titles ''f'' [''A\<newline>'', ''---\<newline>'', ''B\<newline>'', ''===\<newline>''] 0 ''=-~+''
     = Inr ''A\<newline>===\<newline>B\<newline>+++\<newline>'' \<and>
   load_with_adjusted_titles ''f'' [''A\<newline>'', ''---\<newline>'', ''B\<newline>'', ''===\<newline>''] (- 1) ''=-~+''
     = Inr ''A\<newline>+++\<newline>B\<newline>~~~\<newline>''"
proof -
  let ?st0 = "\<lparr> rst_lines = [''A\<newline>'', ''===\<newline>'', ''B\<newline>''], prev_line_title_level = 1,
               file_offset = Some 1, prev_non_title_line = Some ''B\<newline>'' \<rparr>"
  let ?st1 = "\<lparr> rst_lines = [''A\<newline>'', ''+++\<newline>'', ''B\<newline>''], prev_line_title_level = 1,
               file_offset = Some 1, prev_non_title_line = Some ''B\<newline>'' \<rparr>"
  have pre0: "scan_lines ''f'' 0 ''=-~+'' 1 [''A\<newline>'', ''---\<newline>'', ''B\<newline>''] init_state = Inr ?st0"
    by code_simp
  have pre1: "scan_lines ''f'' (- 1) ''=-~+'' 1 [''A\<newline>'', ''---\<newline>'', ''B\<newline>''] init_state = Inr ?st1"
    by code_simp
  have m: "regex_match ''=-~+'' ''===\<newline>''"
    by (simp add: regex_match_def class_run_def)
  have ix: "py_index ''=-~+'' (hd ''===\<newline>'') = Some 0"
    by simp
  have "load_with_adjusted_titles ''f'' ([''A\<newline>'', ''---\<newline>'', ''B\<newline>''] @ [''===\<newline>'']) 0 ''=-~+''
      = Inr (concat (rst_lines ?st0) @
          str_replace (hd ''===\<newline>'')
            (''=-~+'' ! nat (int (length ''=-~+'') + (0 + int 0 - int 1))) ''===\<newline>'')"
    using negative_adjusted_level_wraps [OF pre0 _ _ m _ ix, of 1 "''B\<newline>''"]
    by simp
  then have a: "load_with_adjusted_titles ''f'' [''A\<newline>'', ''---\<newline>'', ''B\<newline>'', ''===\<newline>''] 0 ''=-~+''
      = Inr ''A\<newline>===\<newline>B\<newline>+++\<newline>''"
    by (simp add: str_replace_def)
  have "load_with_adjusted_titles ''f'' ([''A\<newline>'', ''---\<newline>'', ''B\<newline>''] @ [''===\<newline>'']) (- 1) ''=-~+''
      = Inr (concat (rst_lines ?st1) @
          str_replace (hd ''===\<newline>'')
            (''=-~+'' ! nat (int (length ''=-~+'') + (- 1 + int 0 - int 1))) ''===\<newline>'')"
    using negative_adjusted_level_wraps [OF pre1 _ _ m _ ix, of 1 "''B\<newline>''"]
    by simp
  then have b: "load_with_adjusted_titles ''f'' [''A\<newline>'', ''---\<newline>'', ''B\<newline>'', ''===\<newline>''] (- 1) ''=-~+''
      = Inr ''A\<newline>+++\<newline>B\<newline>~~~\<newline>''"
    by (simp add: str_replace_def)
  from a b show ?thesis by blast
qed

text \<open>
  The claim as it was stated has no lower bound. A target level can be negative, as
  the key of a dictionary node. At the target level -4 the first title of the fragment
  has level 1, above the target level, and adjusted level -4, which is still read as
  position 0; the title \<open>=\<close> after it goes up to level 0, its adjusted level is -5,
  and the subscript of line 111 raises an IndexError.
\<close>

theorem negative_adjusted_level_counterexample:
  "py_index ''=-~+'' CHR ''-'' = Some 1 \<and> py_index ''=-~+'' CHR ''='' = Some 0 \<and>
   - 4 + int 0 - int 1 < (0::int) \<and>
   load_with_adjusted_titles ''f'' [''A\<newline>'', ''---\<newline>'', ''B\<newline>'', ''===\<newline>''] (- 4) ''=-~+''
     = Inl IndexError"
  by code_simp

subsection \<open>An adjusted level beyond the style table (lines 87-95)\<close>

text \<open>
  Claim C8, as the code has it. Let the scan have passed the lines \<open>pre\<close> and let the
  next line be a title of level \<open>l\<close> whose adjusted level is not a position of the
  style table. Then the function raises an exception that names the file, whatever
  follows the line, so no text is returned for the fragment. The check of line 72
  comes first, though: the exception is the one of line 90 (style table exhausted)
  when the title obeys \<open>l \<le> prev_line_title_level + 1\<close>, and the one of line 73
  otherwise.
\<close>

theorem table_exhausted_raises:
  assumes "scan_lines filename title_level title_styles 1 pre init_state = Inr st"
    and "prev_non_title_line st = Some p"
    and "regex_match title_styles line" and "length p \<le> length line"
    and "py_index title_styles (hd line) = Some l"
    and "int (length title_styles) \<le>
           title_level + int l - int (case file_offset st of None \<Rightarrow> l | Some k \<Rightarrow> k)"
  shows "\<exists>n. load_with_adjusted_titles filename (pre @ line # post) title_level title_styles =
     Inl (if l \<le> prev_line_title_level st + 1 then SubTitleTooLow filename n
          else BadTitleLevel filename n (hd line) title_styles
                 (title_styles ! prev_line_title_level st))"
proof -
  from assms(3) have ts: "title_styles \<noteq> []" and ne: "line \<noteq> []"
    using regex_match_styles_nonempty regex_match_hd by blast+
  have inv: "scan_inv title_styles st"
    using scan_lines_inv [OF scan_inv_init [OF ts] assms(1)] .
  then have pr: "prev_line_title_level st < length title_styles"
    by (simp add: scan_inv_def)
  have step: "loop_body filename title_level title_styles (Suc (length pre)) line st =
      Inl (if l \<le> prev_line_title_level st + 1
           then SubTitleTooLow filename (Suc (Suc (length pre)))
           else BadTitleLevel filename (Suc (Suc (length pre))) (hd line) title_styles
                  (title_styles ! prev_line_title_level st))"
    unfolding loop_body_title [OF assms(2,3,4)] adjust_title_eq [OF ne assms(5) pr]
    using assms(6) by (simp add: Let_def)
  have "load_with_adjusted_titles filename (pre @ line # post) title_level title_styles =
      Inl (if l \<le> prev_line_title_level st + 1
           then SubTitleTooLow filename (Suc (Suc (length pre)))
           else BadTitleLevel filename (Suc (Suc (length pre))) (hd line) title_styles
                  (title_styles ! prev_line_title_level st))"
    unfolding load_with_adjusted_titles_def scan_lines_snoc [OF assms(1)] step
    using ts by simp
  then show ?thesis by blast
qed

theorem table_exhausted_raises_witness:
  "\<exists>n. load_with_adjusted_titles ''f''
          [''A\<newline>'', ''===\<newline>'', ''B\<newline>'', ''---\<newline>'', ''C\<newline>''] 3 ''=-~+''
        = Inl (SubTitleTooLow ''f'' n)"
proof -
  let ?st = "\<lparr> rst_lines = [''A\<newline>'', ''+++\<newline>'', ''B\<newline>''], prev_line_title_level = 0,
               file_offset = Some 0, prev_non_title_line = Some ''B\<newline>'' \<rparr>"
  have pre: "scan_lines ''f'' 3 ''=-~+'' 1 [''A\<newline>'', ''===\<newline>'', ''B\<newline>''] init_state = Inr ?st"
    by code_simp
  have m: "regex_match ''=-~+'' ''---\<newline>''"
    by (simp add: regex_match_def class_run_def)
  have ix: "py_index ''=-~+'' (hd ''---\<newline>'') = Some 1"
    by simp
  show ?thesis
    using table_exhausted_raises [OF pre _ m _ ix, of "''B\<newline>''" "[''C\<newline>'']"]
    by simp
qed

text \<open>
  The claim as it was stated promises the exception of the exhausted style table at
  every such title. Here the title \<open>~~~\<close> has level 2 and adjusted level
  \<open>3 + 2 - 0 = 5\<close>, beyond the table of four styles, and the exception raised is the
  one of line 73.
\<close>

theorem table_exhausted_counterexample:
  "py_index ''=-~+'' CHR ''~'' = Some 2 \<and>
   int (length ''=-~+'') \<le> 3 + int 2 - int 0 \<and>
   load_with_adjusted_titles ''f'' [''A\<newline>'', ''===\<newline>'', ''B\<newline>'', ''~~~\<newline>''] 3 ''=-~+''
     = Inl (BadTitleLevel ''f'' 5 CHR ''~'' ''=-~+'' CHR ''='')"
  by code_simp

section \<open>The relative titles\<close>

lemma fix_lines_append:
  "fix_lines tg cur (xs @ ys) =
     (case fix_lines tg cur xs of
        (outs, Some e) \<Rightarrow> (outs, Some e)
      | (outs, None) \<Rightarrow>
          (case fix_lines tg (current_style_after tg cur xs) ys of
             (outs', r) \<Rightarrow> (outs @ outs', r)))"
proof (induction xs arbitrary: cur)
  case Nil
  then show ?case by (simp split: prod.splits)
next
  case (Cons x xs)
  show ?case
  proof (cases "fix_line tg cur x")
    case (Inl e)
    then show ?thesis by simp
  next
    case (Inr r)
    obtain out cur' where r: "r = (out, cur')" by (cases r)
    show ?thesis
      using Cons.IH [of cur'] Inr r
      by (simp split: prod.splits option.splits)
  qed
qed

lemma current_style_after_append:
  "current_style_after tg cur (xs @ ys) =
     current_style_after tg (current_style_after tg cur xs) ys"
  by (induction xs arbitrary: cur) auto

text \<open>An absolute title line sets the current style to its first character.\<close>

lemma fix_line_absolute:
  assumes "\<not> regex_match (relative_title_chars tg) h" "regex_match (target_title_styles tg) h"
  shows "fix_line tg cur h = Inr (h, Some (hd h))"
proof -
  from assms(2) obtain c cs where "h = c # cs"
    using regex_match_hd by (cases h) auto
  with assms show ?thesis by (simp add: fix_line_def)
qed

text \<open>Every other line leaves it as it is.\<close>

lemma fix_line_keeps_style:
  assumes "regex_match (relative_title_chars tg) m \<or> \<not> regex_match (target_title_styles tg) m"
  shows "(case fix_line tg cur m of Inl e \<Rightarrow> cur | Inr (out, style') \<Rightarrow> style') = cur"
  using assms
  by (auto simp: fix_line_def split: list.splits option.splits sum.splits if_splits)

lemma current_style_after_keeps:
  "list_all (\<lambda>m. regex_match (relative_title_chars tg) m \<or>
                  \<not> regex_match (target_title_styles tg) m) mid \<Longrightarrow>
   current_style_after tg cur mid = cur"
  by (induction mid) (simp_all add: fix_line_keeps_style)

text \<open>The replacement character of a relative line, by the three cases of lines 202-217.\<close>

lemma fix_line_relative:
  assumes "regex_match (relative_title_chars tg) line"
    and "py_index (target_title_styles tg) s = Some n"
  shows "fix_line tg (Some s) line =
     (case (if hd line = rel_subtitle tg then
              (if n + 1 = length (target_title_styles tg) then Inl CannotGoLower
               else Inr (target_title_styles tg ! (n + 1)))
            else if hd line = rel_sametitle tg then Inr (target_title_styles tg ! n)
            else if n = 0 then Inl CannotGoHigher
            else Inr (target_title_styles tg ! (n - 1))) of
        Inl e \<Rightarrow> Inl e
      | Inr c \<Rightarrow> Inr (str_replace (hd line) c line, Some s))"
proof -
  from assms(1) have ne: "line \<noteq> []" and mem: "hd line \<in> set (relative_title_chars tg)"
    using regex_match_hd by blast+
  then obtain c cs where line: "line = c # cs" by (cases line) auto
  from mem have three: "c = rel_subtitle tg \<or> c = rel_sametitle tg \<or> c = rel_supertitle tg"
    by (auto simp: relative_title_chars_def line)
  from assms(2) have n: "n < length (target_title_styles tg)"
    using py_index_SomeD by fastforce
  have g0: "py_get (target_title_styles tg) (int n) = Some (target_title_styles tg ! n)"
    using n by (simp add: py_get_def)
  have g1: "n + 1 \<noteq> length (target_title_styles tg) \<Longrightarrow>
      py_get (target_title_styles tg) (int n + 1) = Some (target_title_styles tg ! (n + 1))"
    using n by (simp add: py_get_def nat_add_distrib)
  have g2: "n \<noteq> 0 \<Longrightarrow>
      py_get (target_title_styles tg) (int n - 1) = Some (target_title_styles tg ! (n - 1))"
    using n by (simp add: py_get_def nat_diff_distrib')
  show ?thesis
    using assms three g0 g1 g2
    by (auto simp: fix_line_def line)
qed

text \<open>
  Claim C6. Let \<open>h\<close> be the last absolute title line before a relative marker line
  \<open>line\<close> of the input (the lines \<open>mid\<close> between them hold no absolute title), let
  the loop have passed the lines up to \<open>line\<close> without an exception, and let \<open>n\<close>
  be the position of the style of \<open>h\<close> in the style table. Then the marker line is
  written with its marker character replaced by the style at position \<open>n + 1\<close> for the
  subtitle marker, \<open>n\<close> for the sametitle marker and \<open>n - 1\<close> for the supertitle
  marker, and the loop goes on with the current style unchanged. A subtitle marker at
  the last style of the table and a supertitle marker at the first one raise an
  exception instead, and what was written before stays in the output file.
\<close>

theorem fix_relative_titles_rewrite:
  assumes "file_lines infile = pre @ h # mid @ line # post"
    and "fix_lines tg None (pre @ h # mid) = (outs, None)"
    and "\<not> regex_match (relative_title_chars tg) h"
    and "regex_match (target_title_styles tg) h"
    and "list_all (\<lambda>m. regex_match (relative_title_chars tg) m \<or>
                        \<not> regex_match (target_title_styles tg) m) mid"
    and "regex_match (relative_title_chars tg) line"
    and "py_index (target_title_styles tg) (hd h) = Some n"
  shows "fix_relative_titles tg infile =
     (case (if hd line = rel_subtitle tg then
              (if n + 1 = length (target_title_styles tg) then Inl CannotGoLower
               else Inr (target_title_styles tg ! (n + 1)))
            else if hd line = rel_sametitle tg then Inr (target_title_styles tg ! n)
            else if n = 0 then Inl CannotGoHigher
            else Inr (target_title_styles tg ! (n - 1))) of
        Inl e \<Rightarrow> (concat outs, Some e)
      | Inr c \<Rightarrow>
          (case fix_lines tg (Some (hd h)) post of
             (outs', r) \<Rightarrow> (concat outs @ str_replace (hd line) c line @ concat outs', r)))"
proof -
  let ?R = "if hd line = rel_subtitle tg then
              (if n + 1 = length (target_title_styles tg) then Inl CannotGoLower
               else Inr (target_title_styles tg ! (n + 1)))
            else if hd line = rel_sametitle tg then Inr (target_title_styles tg ! n)
            else if n = 0 then Inl CannotGoHigher
            else Inr (target_title_styles tg ! (n - 1))"
  from assms(4) have ts: "target_title_styles tg \<noteq> []"
    by (rule regex_match_styles_nonempty)
  have "current_style_after tg None (pre @ h # mid) =
      current_style_after tg (current_style_after tg None pre) (h # mid)"
    by (rule current_style_after_append)
  also have "\<dots> = current_style_after tg (Some (hd h)) mid"
    by (simp add: fix_line_absolute [OF assms(3,4)])
  also have "\<dots> = Some (hd h)"
    using assms(5) by (rule current_style_after_keeps)
  finally have cur: "current_style_after tg None (pre @ h # mid) = Some (hd h)" .
  have split: "pre @ h # mid @ line # post = (pre @ h # mid) @ line # post"
    by simp
  have step1: "fix_lines tg None ((pre @ h # mid) @ line # post) =
      (case fix_lines tg (Some (hd h)) (line # post) of (outs', r) \<Rightarrow> (outs @ outs', r))"
    by (subst fix_lines_append) (simp only: assms(2) cur prod.case option.case)
  have step2: "fix_lines tg (Some (hd h)) (line # post) =
      (case ?R of
         Inl e \<Rightarrow> ([], Some e)
       | Inr c \<Rightarrow>
           (case fix_lines tg (Some (hd h)) post of
              (outs', r) \<Rightarrow> (str_replace (hd line) c line # outs', r)))"
    by (simp add: fix_line_relative [OF assms(6,7)] split: sum.splits prod.splits)
  have loop: "fix_lines tg None (pre @ h # mid @ line # post) =
      (case ?R of
         Inl e \<Rightarrow> (outs, Some e)
       | Inr c \<Rightarrow>
           (case fix_lines tg (Some (hd h)) post of
              (outs', r) \<Rightarrow> (outs @ str_replace (hd line) c line # outs', r)))"
    unfolding split step1 step2
    by (simp split: sum.splits prod.splits)
  show ?thesis
    unfolding fix_relative_titles_def assms(1) loop
    using ts by (simp split: sum.splits prod.splits)
qed

theorem fix_relative_titles_rewrite_witness:
  "fix_relative_titles
     \<lparr> target_title_styles = ''=-~+'', rel_subtitle = CHR ''<'', rel_sametitle = CHR ''/'',
       rel_supertitle = CHR ''>'' \<rparr>
     ''Events\<newline>------\<newline>\<newline>Room\<newline><<<<\<newline>''
   = (''Events\<newline>------\<newline>\<newline>Room\<newline>~~~~\<newline>'', None) \<and>
   fix_relative_titles
     \<lparr> target_title_styles = ''=-~+'', rel_subtitle = CHR ''<'', rel_sametitle = CHR ''/'',
       rel_supertitle = CHR ''>'' \<rparr>
     ''Deep\<newline>++++\<newline>Room\<newline><<<<\<newline>''
   = (''Deep\<newline>++++\<newline>Room\<newline>'', Some CannotGoLower)"
proof -
  let ?tg = "\<lparr> target_title_styles = ''=-~+'', rel_subtitle = CHR ''<'',
                rel_sametitle = CHR ''/'', rel_supertitle = CHR ''>'' \<rparr>"
  have rel: "regex_match (relative_title_chars ?tg) ''<<<<\<newline>''"
    by (simp add: regex_match_def class_run_def relative_title_chars_def)
  have h1: "\<not> regex_match (relative_title_chars ?tg) ''------\<newline>''"
    by (simp add: regex_match_def class_run_def relative_title_chars_def)
  have h1': "regex_match (target_title_styles ?tg) ''------\<newline>''"
    by (simp add: regex_match_def class_run_def)
  have mid1: "list_all (\<lambda>m. regex_match (relative_title_chars ?tg) m \<or>
        \<not> regex_match (target_title_styles ?tg) m) [''\<newline>'', ''Room\<newline>'']"
    by (simp add: regex_match_def class_run_def)
  have l1: "file_lines ''Events\<newline>------\<newline>\<newline>Room\<newline><<<<\<newline>'' =
      [''Events\<newline>''] @ ''------\<newline>'' # [''\<newline>'', ''Room\<newline>''] @ ''<<<<\<newline>'' # []"
    by simp
  have p1: "fix_lines ?tg None ([''Events\<newline>''] @ ''------\<newline>'' # [''\<newline>'', ''Room\<newline>'']) =
      ([''Events\<newline>'', ''------\<newline>'', ''\<newline>'', ''Room\<newline>''], None)"
    by (simp add: fix_line_def regex_match_def class_run_def relative_title_chars_def)
  have i1: "py_index (target_title_styles ?tg) (hd ''------\<newline>'') = Some 1"
    by simp
  have a: "fix_relative_titles ?tg ''Events\<newline>------\<newline>\<newline>Room\<newline><<<<\<newline>'' =
      (''Events\<newline>------\<newline>\<newline>Room\<newline>~~~~\<newline>'', None)"
    using fix_relative_titles_rewrite [OF l1 p1 h1 h1' mid1 rel i1]
    by (simp add: str_replace_def)
  have h2: "\<not> regex_match (relative_title_chars ?tg) ''++++\<newline>''"
    by (simp add: regex_match_def class_run_def relative_title_chars_def)
  have h2': "regex_match (target_title_styles ?tg) ''++++\<newline>''"
    by (simp add: regex_match_def class_run_def)
  have mid2: "list_all (\<lambda>m. regex_match (relative_title_chars ?tg) m \<or>
        \<not> regex_match (target_title_styles ?tg) m) [''Room\<newline>'']"
    by (simp add: regex_match_def class_run_def)
  have l2: "file_lines ''Deep\<newline>++++\<newline>Room\<newline><<<<\<newline>'' =
      [''Deep\<newline>''] @ ''++++\<newline>'' # [''Room\<newline>''] @ ''<<<<\<newline>'' # []"
    by simp
  have p2: "fix_lines ?tg None ([''Deep\<newline>''] @ ''++++\<newline>'' # [''Room\<newline>'']) =
      ([''Deep\<newline>'', ''++++\<newline>'', ''Room\<newline>''], None)"
    by (simp add: fix_line_def regex_match_def class_run_def relative_title_chars_def)
  have i2: "py_index (target_title_styles ?tg) (hd ''++++\<newline>'') = Some 3"
    by simp
  have b: "fix_relative_titles ?tg ''Deep\<newline>++++\<newline>Room\<newline><<<<\<newline>'' =
      (''Deep\<newline>++++\<newline>Room\<newline>'', Some CannotGoLower)"
    using fix_relative_titles_rewrite [OF l2 p2 h2 h2' mid2 rel i2]
    by simp
  from a b show ?thesis by blast
qed

section \<open>The walk over the tree of file references\<close>

lemma get_rst_list_eq:
  "get_rst_list fs fl title_level title_styles spec_dir adjust_titles =
     loop_results (map (\<lambda>f. get_rst fs f title_level title_styles spec_dir adjust_titles) fl)"
  by (induction fl) (auto split: sum.splits)

lemma get_rst_dict_eq:
  "set levels \<subseteq> fst ` set d \<Longrightarrow>
   get_rst_dict fs d levels title_styles spec_dir adjust_titles =
     loop_results
       (map (\<lambda>l. get_rst fs (the (map_of d l)) l title_styles spec_dir adjust_titles) levels)"
proof (induction levels)
  case Nil
  then show ?case by simp
next
  case (Cons l levels)
  from Cons.prems have "l \<in> fst ` set d" by simp
  then obtain f where f: "map_of d l = Some f"
    by (metis domD dom_map_of_conv_image_fst)
  from Cons.prems have "set levels \<subseteq> fst ` set d" by simp
  from Cons.IH [OF this] f show ?case
    by (auto split: sum.splits)
qed

text \<open>
  Claim C7. A list node is resolved child by child in the order of the list, every
  child with the target level of the list, and the results are concatenated. A
  dictionary node is resolved key by key in ascending order of the keys, every child
  with its own key as the target level (the level passed to the node itself is not
  used), and the results are concatenated. The first exception of a child ends the
  walk. A node that is neither a string nor a list nor a dictionary raises the
  exception of line 148, which carries the entry.
\<close>

theorem get_rst_tree:
  "get_rst fs (FList fl) title_level title_styles spec_dir adjust_titles =
     map_sum id concat
       (loop_results
          (map (\<lambda>f. get_rst fs f title_level title_styles spec_dir adjust_titles) fl)) \<and>
   get_rst fs (FDict d) title_level title_styles spec_dir adjust_titles =
     map_sum id concat
       (loop_results
          (map (\<lambda>l. get_rst fs (the (map_of d l)) l title_styles spec_dir adjust_titles)
             (sorted_list_of_set (fst ` set d)))) \<and>
   get_rst fs (FOther v) title_level title_styles spec_dir adjust_titles =
     Inl (BadFileEntry (FOther v))"
proof -
  have keys: "sorted_list_of_set (fst ` set d) = sort (remdups (map fst d))"
    using sorted_list_of_set_sort_remdups [of "map fst d"] by simp
  have sub: "set (sort (remdups (map fst d))) \<subseteq> fst ` set d"
    by simp
  show ?thesis
    unfolding keys
    by (simp add: get_rst_list_eq get_rst_dict_eq [OF sub] split: sum.splits)
qed

lemma get_rst_tree_example:
  "get_rst [''spec/a.rst'' \<mapsto> ''A\<newline>===\<newline>\<newline>'', ''spec/b.rst'' \<mapsto> ''B\<newline>===\<newline>\<newline>'',
            ''spec/c.rst'' \<mapsto> ''C\<newline>===\<newline>\<newline>'']
     (FList [FStr ''a.rst'', FDict [(2, FStr ''c.rst''), (1, FStr ''b.rst'')]])
     0 ''=-~+'' ''spec/'' True
   = Inr ''A\<newline>===\<newline>\<newline>B\<newline>---\<newline>\<newline>C\<newline>~~~\<newline>\<newline>''"
  by code_simp

section \<open>The two newlines at the end of a fragment\<close>

lemma concat_file_lines: "concat (file_lines s) = s"
  by (induction s) (auto split: list.splits)

lemma ends_with_two_newlines_iff:
  "ends_with_two_newlines s \<longleftrightarrow> (\<exists>pre. s = pre @ [CHR 0x0A, CHR 0x0A])"
proof
  assume e: "ends_with_two_newlines s"
  then have "s = take (length s - 2) s @ [CHR 0x0A, CHR 0x0A]"
    using append_take_drop_id [of "length s - 2" s]
    by (simp add: ends_with_two_newlines_def)
  then show "\<exists>pre. s = pre @ [CHR 0x0A, CHR 0x0A]" by blast
next
  assume "\<exists>pre. s = pre @ [CHR 0x0A, CHR 0x0A]"
  then show "ends_with_two_newlines s"
    by (auto simp: ends_with_two_newlines_def)
qed

text \<open>
  Two texts have their newlines at the same places when they are of one length and,
  place by place, either both characters are newlines or none is.
\<close>

lemma same_newlines_ends:
  assumes "list_all2 (\<lambda>x y. (x = CHR 0x0A) = (y = CHR 0x0A)) a b"
  shows "ends_with_two_newlines a = ends_with_two_newlines b"
proof -
  have one: "ends_with_two_newlines b"
    if r: "list_all2 (\<lambda>x y. (x = CHR 0x0A) = (y = CHR 0x0A)) a b"
      and e: "ends_with_two_newlines a" for a b :: string
  proof -
    from e obtain pre where a: "a = pre @ [CHR 0x0A, CHR 0x0A]"
      using ends_with_two_newlines_iff by blast
    from r [unfolded a] obtain pre' x y where "b = pre' @ [x, y]"
      and "x = CHR 0x0A" "y = CHR 0x0A"
      by (auto simp: list_all2_append1 list_all2_Cons1)
    then show ?thesis
      using ends_with_two_newlines_iff by blast
  qed
  have sym: "list_all2 (\<lambda>x y. (x = CHR 0x0A) = (y = CHR 0x0A)) b a"
    using assms by (simp add: list_all2_conv_all_nth)
  from one [OF assms] one [OF sym] show ?thesis by blast
qed

lemma same_newlines_refl: "list_all2 (\<lambda>x y. (x = CHR 0x0A) = (y = CHR 0x0A)) a a"
  by (simp add: list_all2_same)

lemma same_newlines_replace:
  "old \<noteq> CHR 0x0A \<Longrightarrow> new \<noteq> CHR 0x0A \<Longrightarrow>
   list_all2 (\<lambda>x y. (x = CHR 0x0A) = (y = CHR 0x0A)) line (str_replace old new line)"
  by (induction line) (auto simp: str_replace_def)

lemma py_get_mem: "py_get xs i = Some x \<Longrightarrow> x \<in> set xs"
  by (auto simp: py_get_def split: if_splits)

lemma loop_body_newlines:
  assumes nl: "CHR 0x0A \<notin> set ts" and inv: "scan_inv ts st"
    and step: "loop_body f L ts i line st = Inr st'"
  shows "\<exists>out. rst_lines st' = rst_lines st @ [out] \<and>
           list_all2 (\<lambda>x y. (x = CHR 0x0A) = (y = CHR 0x0A)) line out"
proof (cases "regex_match ts line \<and> (\<exists>p. prev_non_title_line st = Some p \<and> length p \<le> length line)")
  case False
  with step have "st' = pass_through line st"
    by (auto simp: loop_body_def split: if_splits option.splits)
  then show ?thesis
    by (simp add: pass_through_def same_newlines_refl)
next
  case True
  then obtain p where p: "prev_non_title_line st = Some p" "length p \<le> length line"
    and m: "regex_match ts line" by blast
  from m have ne: "line \<noteq> []" and hd: "hd line \<in> set ts" using regex_match_hd by blast+
  then obtain l where ix: "py_index ts (hd line) = Some l" using py_index_mem by fastforce
  from inv have pr: "prev_line_title_level st < length ts" by (simp add: scan_inv_def)
  from step have "adjust_title f L ts i line st = Inr st'"
    using loop_body_title [OF p(1) m p(2)] by simp
  then obtain c where c: "c \<in> set ts"
    and out: "rst_lines st' = rst_lines st @ [str_replace (hd line) c line]"
    unfolding adjust_title_eq [OF ne ix pr]
    by (auto simp: Let_def split: if_splits option.splits dest: py_get_mem)
  from hd c nl have "hd line \<noteq> CHR 0x0A" "c \<noteq> CHR 0x0A" by auto
  from same_newlines_replace [OF this] out show ?thesis by blast
qed

lemma scan_lines_newlines:
  assumes nl: "CHR 0x0A \<notin> set ts"
  shows "scan_inv ts st \<Longrightarrow> scan_lines f L ts i lines st = Inr st' \<Longrightarrow>
     \<exists>outs. rst_lines st' = rst_lines st @ outs \<and>
       list_all2 (list_all2 (\<lambda>x y. (x = CHR 0x0A) = (y = CHR 0x0A))) lines outs"
proof (induction lines arbitrary: i st)
  case Nil
  then show ?case by simp
next
  case (Cons x xs)
  from Cons.prems(2) obtain st1 where s1: "loop_body f L ts i x st = Inr st1"
    and s2: "scan_lines f L ts (Suc i) xs st1 = Inr st'"
    by (auto split: sum.splits)
  from loop_body_newlines [OF nl Cons.prems(1) s1] obtain out
    where o1: "rst_lines st1 = rst_lines st @ [out]"
      and o2: "list_all2 (\<lambda>x y. (x = CHR 0x0A) = (y = CHR 0x0A)) x out" by blast
  from Cons.IH [OF loop_body_inv [OF Cons.prems(1) s1] s2] obtain outs
    where r1: "rst_lines st' = rst_lines st1 @ outs"
      and r2: "list_all2 (list_all2 (\<lambda>x y. (x = CHR 0x0A) = (y = CHR 0x0A))) xs outs" by blast
  from o1 o2 r1 r2 have "rst_lines st' = rst_lines st @ (out # outs) \<and>
      list_all2 (list_all2 (\<lambda>x y. (x = CHR 0x0A) = (y = CHR 0x0A))) (x # xs) (out # outs)"
    by simp
  then show ?case by blast
qed

lemma same_newlines_concat:
  "list_all2 (list_all2 P) xs ys \<Longrightarrow> list_all2 P (concat xs) (concat ys)"
  by (induction rule: list_all2_induct) (auto intro: list_all2_appendI)

lemma load_newlines:
  assumes "CHR 0x0A \<notin> set ts"
    and "load_with_adjusted_titles f (file_lines content) L ts = Inr rst"
  shows "ends_with_two_newlines rst = ends_with_two_newlines content"
proof -
  from assms(2) have ts: "ts \<noteq> []"
    by (auto simp: load_with_adjusted_titles_def split: if_splits)
  from assms(2) ts obtain st where st: "scan_lines f L ts 1 (file_lines content) init_state = Inr st"
    and rst: "rst = concat (rst_lines st)"
    by (auto simp: load_with_adjusted_titles_def split: sum.splits)
  from scan_lines_newlines [OF assms(1) scan_inv_init [OF ts] st] obtain outs
    where "rst_lines st = outs"
      and "list_all2 (list_all2 (\<lambda>x y. (x = CHR 0x0A) = (y = CHR 0x0A))) (file_lines content) outs"
    by (auto simp: init_state_def)
  then have "list_all2 (\<lambda>x y. (x = CHR 0x0A) = (y = CHR 0x0A)) content rst"
    using same_newlines_concat [of _ "file_lines content" outs] rst
    by (simp add: concat_file_lines)
  from same_newlines_ends [OF this] show ?thesis by simp
qed

text \<open>
  Claim C2, as the code has it. For a fragment that exists, \<open>get_rst\<close> first adjusts
  the titles (when \<open>adjust_titles\<close> is set) and only then looks at the last two
  characters of the text it got. An exception of the adjustment is therefore raised
  as it is, whatever the end of the fragment looks like. When the adjustment
  succeeds, the fragment is rejected with the exception of line 130, which names it,
  exactly when its content does not end with two newline characters; a third newline
  before them does no harm. The style table must not hold the newline character, so
  that the adjustment leaves the newlines of the fragment where they are.
\<close>

theorem get_rst_newline_check:
  assumes "fs (spec_dir @ name) = Some content"
    and "CHR 0x0A \<notin> set title_styles"
  shows "get_rst fs (FStr name) title_level title_styles spec_dir adjust_titles =
     (case (if adjust_titles
            then load_with_adjusted_titles name (file_lines content) title_level title_styles
            else Inr content) of
        Inl e \<Rightarrow> Inl e
      | Inr rst \<Rightarrow>
          if (\<exists>pre. content = pre @ [CHR 0x0A, CHR 0x0A]) then Inr rst
          else Inl (MissingNewlines name))"
proof (cases adjust_titles)
  case False
  with assms(1) show ?thesis
    by (simp add: ends_with_two_newlines_iff)
next
  case True
  show ?thesis
  proof (cases "load_with_adjusted_titles name (file_lines content) title_level title_styles")
    case (Inl e)
    with True assms(1) show ?thesis by simp
  next
    case (Inr rst)
    from load_newlines [OF assms(2) Inr]
    have "ends_with_two_newlines rst = (\<exists>pre. content = pre @ [CHR 0x0A, CHR 0x0A])"
      by (simp add: ends_with_two_newlines_iff)
    with True assms(1) Inr show ?thesis by simp
  qed
qed

theorem get_rst_newline_check_witness:
  "get_rst [''spec/intro.rst'' \<mapsto> ''Intro\<newline>=====\<newline>Text\<newline>'']
     (FStr ''intro.rst'') 1 ''=-~+'' ''spec/'' True
   = Inl (MissingNewlines ''intro.rst'')"
proof -
  have f: "[''spec/intro.rst'' \<mapsto> ''Intro\<newline>=====\<newline>Text\<newline>''] (''spec/'' @ ''intro.rst'') =
      Some ''Intro\<newline>=====\<newline>Text\<newline>''"
    by simp
  have nl: "CHR 0x0A \<notin> set ''=-~+''"
    by simp
  have ld: "load_with_adjusted_titles ''intro.rst'' (file_lines ''Intro\<newline>=====\<newline>Text\<newline>'') 1 ''=-~+''
      = Inr ''Intro\<newline>-----\<newline>Text\<newline>''"
    by code_simp
  have no: "\<not> (\<exists>pre. ''Intro\<newline>=====\<newline>Text\<newline>'' = pre @ [CHR 0x0A, CHR 0x0A])"
    using ends_with_two_newlines_iff [of "''Intro\<newline>=====\<newline>Text\<newline>''", symmetric]
    by (simp add: ends_with_two_newlines_def)
  have "get_rst [''spec/intro.rst'' \<mapsto> ''Intro\<newline>=====\<newline>Text\<newline>'']
      (FStr ''intro.rst'') 1 ''=-~+'' ''spec/'' True =
    (case (if True
           then load_with_adjusted_titles ''intro.rst''
                  (file_lines ''Intro\<newline>=====\<newline>Text\<newline>'') 1 ''=-~+''
           else Inr ''Intro\<newline>=====\<newline>Text\<newline>'') of
       Inl e \<Rightarrow> Inl e
     | Inr rst \<Rightarrow>
         if (\<exists>pre. ''Intro\<newline>=====\<newline>Text\<newline>'' = pre @ [CHR 0x0A, CHR 0x0A]) then Inr rst
         else Inl (MissingNewlines ''intro.rst''))"
    using f nl
    by (rule get_rst_newline_check
          [where fs = "[''spec/intro.rst'' \<mapsto> ''Intro\<newline>=====\<newline>Text\<newline>'']"
             and spec_dir = "''spec/''" and name = "''intro.rst''"])
  then show ?thesis
    unfolding ld using no by simp
qed

text \<open>
  The claim as it was stated has the fragment rejected before the adjustment runs,
  and asks for exactly two newlines. The first fragment below does not end with a
  newline at all, and what is raised is the exception of the adjustment (line 73);
  the second ends with three newlines and is accepted.
\<close>

theorem get_rst_check_after_adjust_counterexample:
  "get_rst [''spec/a.rst'' \<mapsto> ''A\<newline>===\<newline>B\<newline>~~~'']
     (FStr ''a.rst'') 0 ''=-~+'' ''spec/'' True
   = Inl (BadTitleLevel ''a.rst'' 5 CHR ''~'' ''=-~+'' CHR ''='') \<and>
   get_rst [''spec/b.rst'' \<mapsto> ''B\<newline>===\<newline>\<newline>\<newline>'']
     (FStr ''b.rst'') 0 ''=-~+'' ''spec/'' True
   = Inr ''B\<newline>===\<newline>\<newline>\<newline>''"
  by code_simp

section \<open>The uniform shift of the titles of a fragment\<close>

lemma line_levels_length: "length (line_levels ts prev lines) = length lines"
  by (induction lines arbitrary: prev) auto

lemma scan_lines_shift:
  assumes ts: "ts \<noteq> []"
  shows "prev_non_title_line st = Some p \<Longrightarrow> prev_line_title_level st < length ts \<Longrightarrow>
     descent_ok (prev_line_title_level st) (levels_of (line_levels ts (Some p) lines)) \<Longrightarrow>
     list_all (\<lambda>l. 0 \<le> L + int l - int k \<and> L + int l - int k < int (length ts))
       (levels_of (line_levels ts (Some p) lines)) \<Longrightarrow>
     (case file_offset st of
        Some k' \<Rightarrow> k' = k
      | None \<Rightarrow> (case levels_of (line_levels ts (Some p) lines) of
                   [] \<Rightarrow> True | l # _ \<Rightarrow> l = k)) \<Longrightarrow>
     \<exists>st'. scan_lines f L ts i lines st = Inr st' \<and>
       rst_lines st' =
         rst_lines st @ map2 (shifted_line ts (L - int k)) lines (line_levels ts (Some p) lines)"
proof (induction lines arbitrary: i st p)
  case Nil
  then show ?case by simp
next
  case (Cons x xs)
  show ?case
  proof (cases "regex_match ts x \<and> length p \<le> length x")
    case False
    let ?st1 = "pass_through x st"
    have lv: "line_levels ts (Some p) (x # xs) = None # line_levels ts (Some x) xs"
      using False by auto
    have step: "loop_body f L ts i x st = Inr ?st1"
      using loop_body_pass [OF Cons.prems(1) False] .
    have a: "prev_non_title_line ?st1 = Some x"
      and b: "prev_line_title_level ?st1 = prev_line_title_level st"
      and c: "file_offset ?st1 = file_offset st"
      and d: "rst_lines ?st1 = rst_lines st @ [x]"
      by (simp_all add: pass_through_def)
    have lvs: "levels_of (line_levels ts (Some p) (x # xs)) =
        levels_of (line_levels ts (Some x) xs)"
      unfolding lv by simp
    have "\<exists>st'. scan_lines f L ts (Suc i) xs ?st1 = Inr st' \<and>
        rst_lines st' =
          rst_lines ?st1 @ map2 (shifted_line ts (L - int k)) xs (line_levels ts (Some x) xs)"
      using Cons.prems(2) Cons.prems(3-5) [unfolded lvs]
      by (intro Cons.IH [OF a]) (simp_all only: b c)
    then show ?thesis
      unfolding lv by (simp add: step d shifted_line_def)
  next
    case True
    then have m: "regex_match ts x" and len: "length p \<le> length x" by simp_all
    from m have ne: "x \<noteq> []" and "hd x \<in> set ts" using regex_match_hd by blast+
    then obtain l where ix: "py_index ts (hd x) = Some l" using py_index_mem by fastforce
    then have l: "l < length ts" using py_index_SomeD by fastforce
    have lv: "line_levels ts (Some p) (x # xs) = Some l # line_levels ts (Some p) xs"
      using True ix by simp
    let ?rest = "levels_of (line_levels ts (Some p) xs)"
    have lvs: "levels_of (line_levels ts (Some p) (x # xs)) = l # ?rest"
      unfolding lv by simp
    from Cons.prems(3) [unfolded lvs]
    have d1: "l \<le> prev_line_title_level st + 1" and d2: "descent_ok l ?rest"
      by simp_all
    from Cons.prems(4) [unfolded lvs]
    have r1: "0 \<le> L + int l - int k" "L + int l - int k < int (length ts)"
      and r2: "list_all (\<lambda>l. 0 \<le> L + int l - int k \<and> L + int l - int k < int (length ts)) ?rest"
      by simp_all
    from Cons.prems(5) [unfolded lvs]
    have off: "(case file_offset st of None \<Rightarrow> l | Some k' \<Rightarrow> k') = k"
      by (simp split: option.splits)
    let ?new = "str_replace (hd x) (ts ! nat (L + int l - int k)) x"
    let ?st1 = "st\<lparr> rst_lines := rst_lines st @ [?new], prev_line_title_level := l,
                    file_offset := Some k \<rparr>"
    have step: "loop_body f L ts i x st = Inr ?st1"
      unfolding loop_body_title [OF Cons.prems(1) m len]
        adjust_title_eq [OF ne ix Cons.prems(2)]
      using d1 r1 off by (simp add: py_get_nat)
    have "\<exists>st'. scan_lines f L ts (Suc i) xs ?st1 = Inr st' \<and>
        rst_lines st' =
          rst_lines ?st1 @ map2 (shifted_line ts (L - int k)) xs (line_levels ts (Some p) xs)"
      using Cons.prems(1) l d2 r2
      by (intro Cons.IH) simp_all
    moreover have "shifted_line ts (L - int k) x (Some l) = ?new"
      by (simp add: shifted_line_def algebra_simps)
    ultimately show ?thesis
      unfolding lv by (simp add: step)
  qed
qed

lemma line_levels_title_styles:
  "levels_of (line_levels ts prev lines) \<noteq> [] \<Longrightarrow> ts \<noteq> []"
proof (induction lines arbitrary: prev)
  case Nil
  then show ?case by simp
next
  case (Cons x xs)
  show ?case
  proof (cases "regex_match ts x")
    case True
    then show ?thesis by (rule regex_match_styles_nonempty)
  next
    case False
    with Cons.prems have "levels_of (line_levels ts (Some x) xs) \<noteq> []" by simp
    then show ?thesis by (rule Cons.IH)
  qed
qed

lemma shifted_line_None: "shifted_line ts d line None = line"
  by (simp add: shifted_line_def)

lemma shifted_line_Some:
  "shifted_line ts d line (Some l) = str_replace (hd line) (ts ! nat (int l + d)) line"
  by (simp add: shifted_line_def)

text \<open>
  Claim C1, as the code has it. Take a fragment that does not start with a marker
  line, whose first title has level \<open>k\<close>, whose title levels obey the rule of line 72
  (the first one against the initial level 0), and let every adjusted level
  \<open>title_level + l - k\<close> be a position of the style table. Then the function returns
  the lines of the fragment in their order, every ordinary line as it is and every
  title line of level \<open>l\<close> with its marker character replaced by the style at position
  \<open>l + (title_level - k)\<close>: one offset for the whole fragment, which puts the first
  title at position \<open>title_level\<close> and keeps the distances between the levels.
\<close>

theorem load_shifts_titles_uniformly:
  assumes "\<not> regex_match title_styles (hd lines)"
    and "title_levels title_styles lines = k # ls"
    and "descent_ok 0 (k # ls)"
    and "\<forall>l \<in> set (k # ls).
           0 \<le> title_level + int l - int k \<and>
           title_level + int l - int k < int (length title_styles)"
  shows "load_with_adjusted_titles filename lines title_level title_styles =
     Inr (concat (map2 (shifted_line title_styles (title_level - int k)) lines
                    (line_levels title_styles None lines)))"
proof -
  from assms(2) have ts: "title_styles \<noteq> []"
    using line_levels_title_styles [of title_styles None lines]
    by (simp add: title_levels_def)
  from assms(2) obtain x xs where lines: "lines = x # xs"
    by (cases lines) (auto simp: title_levels_def)
  with assms(1) have nm: "\<not> regex_match title_styles x" by simp
  let ?st = "pass_through x init_state"
  have lv: "line_levels title_styles None (x # xs) = None # line_levels title_styles (Some x) xs"
    using nm by simp
  have lvs: "levels_of (line_levels title_styles (Some x) xs) = k # ls"
    using assms(2) unfolding title_levels_def lines lv by simp
  have step: "loop_body filename title_level title_styles 1 x init_state = Inr ?st"
    using nm by (simp add: loop_body_def)
  have a: "prev_non_title_line ?st = Some x"
    by (simp add: pass_through_def)
  have b: "prev_line_title_level ?st < length title_styles"
    using ts by (simp add: pass_through_def init_state_def)
  have c: "descent_ok (prev_line_title_level ?st)
      (levels_of (line_levels title_styles (Some x) xs))"
    using assms(3) unfolding lvs by (simp add: pass_through_def init_state_def)
  have d: "list_all (\<lambda>l. 0 \<le> title_level + int l - int k \<and>
        title_level + int l - int k < int (length title_styles))
      (levels_of (line_levels title_styles (Some x) xs))"
    using assms(4) unfolding lvs by (simp add: list_all_iff)
  have e: "(case file_offset ?st of
        Some k' \<Rightarrow> k' = k
      | None \<Rightarrow> (case levels_of (line_levels title_styles (Some x) xs) of
                   [] \<Rightarrow> True | l # _ \<Rightarrow> l = k))"
    unfolding lvs by (simp add: pass_through_def init_state_def)
  from scan_lines_shift [OF ts a b c d e, of filename "Suc 1"] obtain st'
    where s: "scan_lines filename title_level title_styles (Suc 1) xs ?st = Inr st'"
      and r: "rst_lines st' = rst_lines ?st @
          map2 (shifted_line title_styles (title_level - int k)) xs
            (line_levels title_styles (Some x) xs)"
    by blast
  have "scan_lines filename title_level title_styles 1 (x # xs) init_state = Inr st'"
    using step s by simp
  moreover have "rst_lines st' =
      map2 (shifted_line title_styles (title_level - int k)) (x # xs)
        (line_levels title_styles None (x # xs))"
    unfolding lv r by (simp add: pass_through_def init_state_def shifted_line_None)
  ultimately show ?thesis
    unfolding load_with_adjusted_titles_def lines using ts by simp
qed

text \<open>
  The example of the docstring: the titles \<open>=, -, -, =, -\<close> with target level 1 become
  \<open>-, ~, ~, -, ~\<close>.
\<close>

theorem load_shifts_titles_uniformly_witness:
  "load_with_adjusted_titles ''f''
     [''A\<newline>'', ''===\<newline>'', ''B\<newline>'', ''---\<newline>'', ''C\<newline>'', ''---\<newline>'',
      ''D\<newline>'', ''===\<newline>'', ''E\<newline>'', ''---\<newline>''] 1 ''=-~+''
   = Inr ''A\<newline>---\<newline>B\<newline>~~~\<newline>C\<newline>~~~\<newline>D\<newline>---\<newline>E\<newline>~~~\<newline>''"
proof -
  let ?lines = "[''A\<newline>'', ''===\<newline>'', ''B\<newline>'', ''---\<newline>'', ''C\<newline>'', ''---\<newline>'',
      ''D\<newline>'', ''===\<newline>'', ''E\<newline>'', ''---\<newline>'']"
  have a: "\<not> regex_match ''=-~+'' (hd ?lines)"
    by (simp add: regex_match_def class_run_def)
  have b: "title_levels ''=-~+'' ?lines = 0 # [1, 1, 0, 1]"
    by code_simp
  have c: "descent_ok 0 (0 # [1, 1, 0, 1])"
    by simp
  have d: "\<forall>l \<in> set (0 # [1, 1, 0, 1]).
      0 \<le> 1 + int l - int 0 \<and> 1 + int l - int 0 < int (length ''=-~+'')"
    by simp
  have v: "concat (map2 (shifted_line ''=-~+'' (1 - int 0)) ?lines (line_levels ''=-~+'' None ?lines))
      = ''A\<newline>---\<newline>B\<newline>~~~\<newline>C\<newline>~~~\<newline>D\<newline>---\<newline>E\<newline>~~~\<newline>''"
    by code_simp
  show ?thesis
    unfolding load_shifts_titles_uniformly [OF a b c d] v ..
qed

text \<open>
  The claim as it was stated has no condition on the adjusted levels. In the first
  fragment below the first title has level 1 and the target level is 0: the title
  \<open>-\<close> moves to position 0 (offset -1), the title \<open>=\<close> after it to position 3, the
  deepest style of the table (offset +3). In the second one the title \<open>-\<close> would move
  to position 4, and the function raises.
\<close>

theorem load_offset_not_uniform_counterexample:
  "title_levels ''=-~+'' [''A\<newline>'', ''---\<newline>'', ''B\<newline>'', ''===\<newline>''] = [1, 0] \<and>
   descent_ok 0 [1, 0] \<and>
   load_with_adjusted_titles ''f'' [''A\<newline>'', ''---\<newline>'', ''B\<newline>'', ''===\<newline>''] 0 ''=-~+''
     = Inr ''A\<newline>===\<newline>B\<newline>+++\<newline>'' \<and>
   title_levels ''=-~+'' [''A\<newline>'', ''===\<newline>'', ''B\<newline>'', ''---\<newline>''] = [0, 1] \<and>
   descent_ok 0 [0, 1] \<and>
   load_with_adjusted_titles ''f'' [''A\<newline>'', ''===\<newline>'', ''B\<newline>'', ''---\<newline>''] 3 ''=-~+''
     = Inl (SubTitleTooLow ''f'' 5)"
  by code_simp

section \<open>Fragments put together\<close>

subsection \<open>Lines of a concatenation\<close>

lemma file_lines_line:
  "CHR 0x0A \<notin> set body \<Longrightarrow>
   file_lines (body @ CHR 0x0A # rest) = (body @ [CHR 0x0A]) # file_lines rest"
  by (induction body) auto

lemma file_lines_last: "CHR 0x0A \<notin> set l \<Longrightarrow> l \<noteq> [] \<Longrightarrow> file_lines l = [l]"
proof (induction l)
  case Nil
  then show ?case by simp
next
  case (Cons c cs)
  then show ?case by (cases cs) auto
qed

lemma file_lines_append:
  "a = [] \<or> last a = CHR 0x0A \<Longrightarrow> file_lines (a @ b) = file_lines a @ file_lines b"
proof (induction a)
  case Nil
  then show ?case by simp
next
  case (Cons c cs)
  show ?case
  proof (cases "cs = []")
    case True
    with Cons.prems show ?thesis by simp
  next
    case False
    with Cons.prems have "last cs = CHR 0x0A" by simp
    with Cons.IH have ih: "file_lines (cs @ b) = file_lines cs @ file_lines b" by simp
    from False have "file_lines cs \<noteq> []" by (cases cs) (auto split: list.splits)
    then show ?thesis
      using ih by (auto split: list.splits)
  qed
qed

lemma file_lines_concat:
  "lines_ok ls \<Longrightarrow> file_lines (concat ls) = ls"
proof (induction ls rule: lines_ok.induct)
  case 1
  then show ?case by simp
next
  case (2 l)
  show ?case
  proof (cases "last l = CHR 0x0A")
    case True
    with 2 have "l = butlast l @ [CHR 0x0A]" "CHR 0x0A \<notin> set (butlast l)"
      using append_butlast_last_id [of l] by auto
    then show ?thesis
      using file_lines_line [of "butlast l" "[]"] by simp
  next
    case False
    with 2 have "CHR 0x0A \<notin> set l"
      using append_butlast_last_id [of l]
      by (metis Un_iff empty_iff empty_set lines_ok.simps(2) set_ConsD set_append)
    with 2 show ?thesis by (simp add: file_lines_last)
  qed
next
  case (3 l m ms)
  then have l: "l = butlast l @ [CHR 0x0A]" "CHR 0x0A \<notin> set (butlast l)"
    and ok: "lines_ok (m # ms)"
    using append_butlast_last_id [of l] by auto
  from 3(1) [OF ok] have "file_lines (concat (m # ms)) = m # ms" .
  then show ?case
    using file_lines_line [OF l(2), of "concat (m # ms)"] l(1)
    by (metis append.assoc append_Cons append_Nil concat.simps(2))
qed

lemma lines_ok_file_lines: "lines_ok (file_lines s)"
proof (induction s)
  case Nil
  then show ?case by simp
next
  case (Cons c cs)
  show ?case
  proof (cases "c = CHR 0x0A")
    case True
    with Cons show ?thesis by (cases "file_lines cs") auto
  next
    case False
    show ?thesis
    proof (cases "file_lines cs")
      case Nil
      with False show ?thesis by simp
    next
      case (Cons l ls)
      with Cons.IH False show ?thesis
        by (cases ls) (auto split: if_splits)
    qed
  qed
qed

subsection \<open>What a successful scan has written\<close>

lemma py_get_pos:
  "py_get xs i = Some x \<Longrightarrow> py_pos (length xs) i < length xs \<and> x = xs ! py_pos (length xs) i"
  by (auto simp: py_get_def py_pos_def split: if_splits)

lemma adjusted_line_None: "adjusted_line ts L k line None = line"
  by (simp add: adjusted_line_def)

lemma scan_lines_success:
  "scan_inv ts st \<Longrightarrow> prev_non_title_line st = Some p \<Longrightarrow>
   scan_lines f L ts i lines st = Inr st' \<Longrightarrow>
   (case file_offset st of
      Some k' \<Rightarrow> k' = k
    | None \<Rightarrow> (case levels_of (line_levels ts (Some p) lines) of
                 [] \<Rightarrow> True | l # _ \<Rightarrow> l = k)) \<Longrightarrow>
   rst_lines st' =
     rst_lines st @ map2 (adjusted_line ts L k) lines (line_levels ts (Some p) lines) \<and>
   list_all (\<lambda>l. l < length ts \<and> py_pos (length ts) (L + int l - int k) < length ts)
     (levels_of (line_levels ts (Some p) lines)) \<and>
   descent_ok (prev_line_title_level st) (levels_of (line_levels ts (Some p) lines))"
proof (induction lines arbitrary: i st p)
  case Nil
  then show ?case by simp
next
  case (Cons x xs)
  from Cons.prems(3) obtain st1 where s1: "loop_body f L ts i x st = Inr st1"
    and s2: "scan_lines f L ts (Suc i) xs st1 = Inr st'"
    by (auto split: sum.splits)
  have inv1: "scan_inv ts st1"
    using loop_body_inv [OF Cons.prems(1) s1] .
  show ?case
  proof (cases "regex_match ts x \<and> length p \<le> length x")
    case False
    have lv: "line_levels ts (Some p) (x # xs) = None # line_levels ts (Some x) xs"
      using False by auto
    have lvs: "levels_of (line_levels ts (Some p) (x # xs)) =
        levels_of (line_levels ts (Some x) xs)"
      unfolding lv by simp
    have st1: "st1 = pass_through x st"
      using s1 loop_body_pass [OF Cons.prems(2) False] by simp
    have a: "prev_non_title_line st1 = Some x"
      and c: "file_offset st1 = file_offset st"
      and d: "rst_lines st1 = rst_lines st @ [x]"
      and b: "prev_line_title_level st1 = prev_line_title_level st"
      by (simp_all add: st1 pass_through_def)
    have e: "(case file_offset st1 of
        Some k' \<Rightarrow> k' = k
      | None \<Rightarrow> (case levels_of (line_levels ts (Some x) xs) of
                   [] \<Rightarrow> True | l # _ \<Rightarrow> l = k))"
      using Cons.prems(4) [unfolded lvs] by (simp only: c)
    from Cons.IH [OF inv1 a s2 e] show ?thesis
      unfolding lvs unfolding lv by (simp add: d b adjusted_line_None)
  next
    case True
    then have m: "regex_match ts x" and len: "length p \<le> length x" by simp_all
    from m have ne: "x \<noteq> []" and "hd x \<in> set ts" using regex_match_hd by blast+
    then obtain l where ix: "py_index ts (hd x) = Some l" using py_index_mem by fastforce
    then have l: "l < length ts" using py_index_SomeD by fastforce
    have lv: "line_levels ts (Some p) (x # xs) = Some l # line_levels ts (Some p) xs"
      using True ix by simp
    let ?rest = "levels_of (line_levels ts (Some p) xs)"
    have lvs: "levels_of (line_levels ts (Some p) (x # xs)) = l # ?rest"
      unfolding lv by simp
    from Cons.prems(1) have pr: "prev_line_title_level st < length ts"
      by (simp add: scan_inv_def)
    from Cons.prems(4) [unfolded lvs]
    have off: "(case file_offset st of None \<Rightarrow> l | Some k' \<Rightarrow> k') = k"
      by (simp split: option.splits)
    from s1 have adj: "adjust_title f L ts i x st = Inr st1"
      using loop_body_title [OF Cons.prems(2) m len] by simp
    then obtain c where g: "py_get ts (L + int l - int k) = Some c"
      and st1: "st1 = st\<lparr> rst_lines := rst_lines st @ [str_replace (hd x) c x],
                           prev_line_title_level := l, file_offset := Some k \<rparr>"
      and d1: "l \<le> prev_line_title_level st + 1"
      unfolding adjust_title_eq [OF ne ix pr]
      by (auto simp: Let_def off split: if_splits option.splits)
    from py_get_pos [OF g] have pos: "py_pos (length ts) (L + int l - int k) < length ts"
      and c: "c = ts ! py_pos (length ts) (L + int l - int k)" by simp_all
    have a: "prev_non_title_line st1 = Some p"
      using Cons.prems(2) by (simp add: st1)
    have e: "(case file_offset st1 of
        Some k' \<Rightarrow> k' = k
      | None \<Rightarrow> (case ?rest of [] \<Rightarrow> True | l # _ \<Rightarrow> l = k))"
      by (simp add: st1)
    have new: "adjusted_line ts L k x (Some l) = str_replace (hd x) c x"
      by (simp add: adjusted_line_def c)
    have b: "prev_line_title_level st1 = l"
      by (simp add: st1)
    from Cons.IH [OF inv1 a s2 e] show ?thesis
      unfolding lvs b unfolding lv using l pos d1 by (simp add: st1 new)
  qed
qed

lemma load_success:
  assumes "load_with_adjusted_titles f lines L ts = Inr out"
    and "case title_levels ts lines of [] \<Rightarrow> True | l # _ \<Rightarrow> l = k"
  shows "out = concat (map2 (adjusted_line ts L k) lines (line_levels ts None lines)) \<and>
    list_all (\<lambda>l. l < length ts \<and> py_pos (length ts) (L + int l - int k) < length ts)
      (title_levels ts lines) \<and>
    (lines \<noteq> [] \<longrightarrow> \<not> regex_match ts (hd lines)) \<and>
    descent_ok 0 (title_levels ts lines)"
proof (cases lines)
  case Nil
  with assms show ?thesis
    by (auto simp: load_with_adjusted_titles_def title_levels_def init_state_def split: if_splits)
next
  case (Cons x xs)
  from assms(1) have ts: "ts \<noteq> []"
    by (auto simp: load_with_adjusted_titles_def split: if_splits)
  from assms(1) ts obtain st' where sc: "scan_lines f L ts 1 (x # xs) init_state = Inr st'"
    and out: "out = concat (rst_lines st')"
    by (auto simp: load_with_adjusted_titles_def Cons split: sum.splits)
  from sc obtain st1 where s1: "loop_body f L ts 1 x init_state = Inr st1"
    and s2: "scan_lines f L ts (Suc 1) xs st1 = Inr st'"
    by (auto split: sum.splits)
  from s1 have nm: "\<not> regex_match ts x" and st1: "st1 = pass_through x init_state"
    by (auto simp: loop_body_def init_state_def split: if_splits)
  have lv: "line_levels ts None (x # xs) = None # line_levels ts (Some x) xs"
    using nm by simp
  have inv1: "scan_inv ts st1"
    using loop_body_inv [OF scan_inv_init [OF ts] s1] .
  have a: "prev_non_title_line st1 = Some x"
    by (simp add: st1 pass_through_def)
  have e: "(case file_offset st1 of
        Some k' \<Rightarrow> k' = k
      | None \<Rightarrow> (case levels_of (line_levels ts (Some x) xs) of
                   [] \<Rightarrow> True | l # _ \<Rightarrow> l = k))"
    using assms(2) unfolding title_levels_def Cons lv
    by (simp add: st1 pass_through_def init_state_def)
  from scan_lines_success [OF inv1 a s2 e]
  have r: "rst_lines st' =
      rst_lines st1 @ map2 (adjusted_line ts L k) xs (line_levels ts (Some x) xs)"
    and ok: "list_all (\<lambda>l. l < length ts \<and> py_pos (length ts) (L + int l - int k) < length ts)
      (levels_of (line_levels ts (Some x) xs))"
    and desc: "descent_ok (prev_line_title_level st1) (levels_of (line_levels ts (Some x) xs))"
    by simp_all
  have "descent_ok 0 (title_levels ts (x # xs))"
    unfolding title_levels_def lv using desc
    by (simp add: st1 pass_through_def init_state_def)
  moreover
  have "out = concat (map2 (adjusted_line ts L k) (x # xs) (line_levels ts None (x # xs)))"
    unfolding out r lv
    by (simp add: st1 pass_through_def init_state_def adjusted_line_None)
  moreover have "list_all (\<lambda>l. l < length ts \<and> py_pos (length ts) (L + int l - int k) < length ts)
      (title_levels ts (x # xs))"
    unfolding title_levels_def lv using ok by simp
  ultimately show ?thesis
    using nm Cons by simp
qed

subsection \<open>The titles of the adjusted text\<close>

lemma regex_match_replace:
  assumes "old \<in> set ts" "new \<in> set ts" "CHR 0x0A \<notin> set ts"
  shows "regex_match ts (str_replace old new line) = regex_match ts line"
proof -
  let ?f = "\<lambda>c. if c = old then new else c"
  have mem: "(?f c \<in> set ts) = (c \<in> set ts)" for c
    using assms(1,2) by simp
  have nl: "(?f c = CHR 0x0A) = (c = CHR 0x0A)" for c
    using assms by auto
  have "list_all (\<lambda>c. c \<in> set ts) (map ?f s) = list_all (\<lambda>c. c \<in> set ts) s" for s
  proof (induction s)
    case Nil
    show ?case by simp
  next
    case (Cons c cs)
    have "list_all (\<lambda>c. c \<in> set ts) (map ?f (c # cs)) =
        (?f c \<in> set ts \<and> list_all (\<lambda>c. c \<in> set ts) (map ?f cs))"
      by simp
    also have "\<dots> = (c \<in> set ts \<and> list_all (\<lambda>c. c \<in> set ts) cs)"
      unfolding mem Cons.IH ..
    finally show ?case by simp
  qed
  then have run: "class_run ts (map ?f s) = class_run ts s" for s
    by (simp only: class_run_def length_map)
  have "regex_match ts (map ?f line) = regex_match ts line"
  proof (cases "line = []")
    case True
    then show ?thesis by (simp add: regex_match_def)
  next
    case False
    then have "last (map ?f line) = ?f (last line)"
      by (rule last_map)
    with False show ?thesis
      unfolding regex_match_def
      by (simp only: run map_butlast [symmetric] nl map_is_Nil_conv)
  qed
  then show ?thesis by (simp add: str_replace_def)
qed

lemma str_replace_length: "length (str_replace old new line) = length line"
  by (simp add: str_replace_def)

lemma str_replace_hd: "line \<noteq> [] \<Longrightarrow> hd (str_replace (hd line) new line) = new"
  by (cases line) (simp_all add: str_replace_def)

lemma line_levels_adjusted:
  assumes d: "distinct ts" and nl: "CHR 0x0A \<notin> set ts"
  shows "list_all (\<lambda>l. l < length ts \<and> py_pos (length ts) (L + int l - int k) < length ts)
       (levels_of (line_levels ts prev lines)) \<Longrightarrow>
     line_levels ts prev (map2 (adjusted_line ts L k) lines (line_levels ts prev lines)) =
       map (map_option (\<lambda>l. py_pos (length ts) (L + int l - int k))) (line_levels ts prev lines)"
proof (induction lines arbitrary: prev)
  case Nil
  then show ?case by simp
next
  case (Cons x xs)
  show ?case
  proof (cases "regex_match ts x \<and> (case prev of None \<Rightarrow> False | Some p \<Rightarrow> length p \<le> length x)")
    case False
    then have lv: "line_levels ts prev (x # xs) = None # line_levels ts (Some x) xs"
      by auto
    from Cons.prems have "list_all (\<lambda>l. l < length ts \<and>
        py_pos (length ts) (L + int l - int k) < length ts)
        (levels_of (line_levels ts (Some x) xs))"
      unfolding lv by simp
    from Cons.IH [OF this] show ?thesis
      unfolding lv using False by (auto simp: adjusted_line_None)
  next
    case True
    then have m: "regex_match ts x" by simp
    from m have ne: "x \<noteq> []" and hd: "hd x \<in> set ts" using regex_match_hd by blast+
    then obtain l where ix: "py_index ts (hd x) = Some l" using py_index_mem by fastforce
    have lv: "line_levels ts prev (x # xs) = Some l # line_levels ts prev xs"
      using True ix by simp
    let ?w = "py_pos (length ts) (L + int l - int k)"
    let ?out = "str_replace (hd x) (ts ! ?w) x"
    from Cons.prems have w: "?w < length ts"
      and rest: "list_all (\<lambda>l. l < length ts \<and>
        py_pos (length ts) (L + int l - int k) < length ts)
        (levels_of (line_levels ts prev xs))"
      unfolding lv by simp_all
    from w have new: "ts ! ?w \<in> set ts" by simp
    have o1: "regex_match ts ?out"
      using regex_match_replace [OF hd new nl] m by simp
    have o2: "length ?out = length x"
      by (rule str_replace_length)
    have o3: "py_index ts (hd ?out) = Some ?w"
      using str_replace_hd [OF ne] py_index_nth [OF d w] by simp
    have o4: "adjusted_line ts L k x (Some l) = ?out"
      by (simp add: adjusted_line_def)
    from Cons.IH [OF rest] show ?thesis
      unfolding lv using True o1 o3
      by (simp add: o4 o2 split: option.splits)
  qed
qed

lemma same_newlines_mem:
  "list_all2 (\<lambda>x y. (x = CHR 0x0A) = (y = CHR 0x0A)) l m \<Longrightarrow>
   (CHR 0x0A \<in> set l) = (CHR 0x0A \<in> set m)"
  by (induction rule: list_all2_induct) auto

lemma same_newlines_butlast:
  "list_all2 (\<lambda>x y. (x = CHR 0x0A) = (y = CHR 0x0A)) l m \<Longrightarrow>
   list_all2 (\<lambda>x y. (x = CHR 0x0A) = (y = CHR 0x0A)) (butlast l) (butlast m)"
  by (induction rule: list_all2_induct) (auto dest: list_all2_lengthD)

lemma same_newlines_last:
  "list_all2 (\<lambda>x y. (x = CHR 0x0A) = (y = CHR 0x0A)) l m \<Longrightarrow> l \<noteq> [] \<Longrightarrow>
   (last l = CHR 0x0A) = (last m = CHR 0x0A)"
  by (induction rule: list_all2_induct) (auto dest: list_all2_lengthD)

lemma same_newlines_line:
  assumes "list_all2 (\<lambda>x y. (x = CHR 0x0A) = (y = CHR 0x0A)) l m"
  shows "(l \<noteq> []) = (m \<noteq> [])"
    and "(CHR 0x0A \<notin> set (butlast l)) = (CHR 0x0A \<notin> set (butlast m))"
    and "l \<noteq> [] \<Longrightarrow> (last l = CHR 0x0A) = (last m = CHR 0x0A)"
  using assms same_newlines_mem [OF same_newlines_butlast [OF assms]]
    same_newlines_last [OF assms]
  by (auto dest: list_all2_lengthD)

lemma lines_ok_newlines:
  "lines_ok xs \<Longrightarrow>
   list_all2 (list_all2 (\<lambda>x y. (x = CHR 0x0A) = (y = CHR 0x0A))) xs ys \<Longrightarrow> lines_ok ys"
proof (induction xs arbitrary: ys rule: lines_ok.induct)
  case 1
  then show ?case by simp
next
  case (2 l)
  from 2(2) obtain m where ys: "ys = [m]"
    and lm: "list_all2 (\<lambda>x y. (x = CHR 0x0A) = (y = CHR 0x0A)) l m"
    by (auto simp: list_all2_Cons1)
  from 2(1) same_newlines_line [OF lm] show ?case
    unfolding ys by simp
next
  case (3 l l' ls)
  from 3(3) obtain m m' ms where ys: "ys = m # m' # ms"
    and lm: "list_all2 (\<lambda>x y. (x = CHR 0x0A) = (y = CHR 0x0A)) l m"
    and rest: "list_all2 (list_all2 (\<lambda>x y. (x = CHR 0x0A) = (y = CHR 0x0A))) (l' # ls) (m' # ms)"
    by (auto simp: list_all2_Cons1)
  from 3(2) have ok: "lines_ok (l' # ls)" by simp
  from 3(1) [OF ok rest] have "lines_ok (m' # ms)" .
  with 3(2) same_newlines_line [OF lm] show ?case
    unfolding ys by simp
qed

lemma adjusted_lines_newlines:
  assumes nl: "CHR 0x0A \<notin> set ts"
  shows "list_all (\<lambda>l. l < length ts \<and> py_pos (length ts) (L + int l - int k) < length ts)
       (levels_of (line_levels ts prev lines)) \<Longrightarrow>
     list_all2 (list_all2 (\<lambda>x y. (x = CHR 0x0A) = (y = CHR 0x0A))) lines
       (map2 (adjusted_line ts L k) lines (line_levels ts prev lines))"
proof (induction lines arbitrary: prev)
  case Nil
  then show ?case by simp
next
  case (Cons x xs)
  show ?case
  proof (cases "regex_match ts x \<and> (case prev of None \<Rightarrow> False | Some p \<Rightarrow> length p \<le> length x)")
    case False
    then have lv: "line_levels ts prev (x # xs) = None # line_levels ts (Some x) xs"
      by auto
    from Cons.prems have "list_all (\<lambda>l. l < length ts \<and>
        py_pos (length ts) (L + int l - int k) < length ts)
        (levels_of (line_levels ts (Some x) xs))"
      unfolding lv by simp
    from Cons.IH [OF this] show ?thesis
      unfolding lv by (simp add: adjusted_line_None same_newlines_refl)
  next
    case True
    then have m: "regex_match ts x" by simp
    from m have ne: "x \<noteq> []" and hd: "hd x \<in> set ts" using regex_match_hd by blast+
    then obtain l where ix: "py_index ts (hd x) = Some l" using py_index_mem by fastforce
    have lv: "line_levels ts prev (x # xs) = Some l # line_levels ts prev xs"
      using True ix by simp
    let ?w = "py_pos (length ts) (L + int l - int k)"
    from Cons.prems have w: "?w < length ts"
      and rest: "list_all (\<lambda>l. l < length ts \<and>
        py_pos (length ts) (L + int l - int k) < length ts)
        (levels_of (line_levels ts prev xs))"
      unfolding lv by simp_all
    from w have "ts ! ?w \<in> set ts" by simp
    with hd nl have "hd x \<noteq> CHR 0x0A" "ts ! ?w \<noteq> CHR 0x0A" by auto
    from same_newlines_replace [OF this]
    have "list_all2 (\<lambda>x y. (x = CHR 0x0A) = (y = CHR 0x0A)) x (adjusted_line ts L k x (Some l))"
      by (simp add: adjusted_line_def)
    with Cons.IH [OF rest] show ?thesis
      unfolding lv by simp
  qed
qed

lemma levels_of_append: "levels_of (xs @ ys) = levels_of xs @ levels_of ys"
  by (induction xs rule: levels_of.induct) auto

lemma levels_of_map:
  "levels_of (map (map_option w) lvs) = map w (levels_of lvs)"
  by (induction lvs rule: levels_of.induct) auto

lemma line_levels_append:
  "\<exists>prev'. line_levels ts prev (xs @ ys) = line_levels ts prev xs @ line_levels ts prev' ys"
proof (induction xs arbitrary: prev)
  case Nil
  show ?case by auto
next
  case (Cons x xs)
  show ?case
  proof (cases "regex_match ts x \<and> (case prev of None \<Rightarrow> False | Some p \<Rightarrow> length p \<le> length x)")
    case True
    with Cons.IH [of prev] show ?thesis by auto
  next
    case False
    with Cons.IH [of "Some x"] show ?thesis by auto
  qed
qed

lemma line_levels_fresh:
  "ys = [] \<or> \<not> regex_match ts (hd ys) \<Longrightarrow> line_levels ts prev ys = line_levels ts None ys"
  by (cases ys) auto

lemma title_levels_append:
  assumes "ys = [] \<or> \<not> regex_match ts (hd ys)"
  shows "title_levels ts (xs @ ys) = title_levels ts xs @ title_levels ts ys"
proof -
  obtain prev' where "line_levels ts None (xs @ ys) =
      line_levels ts None xs @ line_levels ts prev' ys"
    using line_levels_append by blast
  with line_levels_fresh [OF assms, of prev'] show ?thesis
    by (simp add: title_levels_def levels_of_append)
qed

subsection \<open>One resolved fragment\<close>

lemma get_rst_FStr_success:
  assumes "fs (sd @ a) = Some c" "get_rst fs (FStr a) L ts sd True = Inr out"
  shows "load_with_adjusted_titles a (file_lines c) L ts = Inr out \<and> ends_with_two_newlines out"
  using assms by (auto split: sum.splits if_splits)

lemma fragment_resolved:
  assumes nl: "CHR 0x0A \<notin> set ts" and d: "distinct ts"
    and f: "fs (sd @ a) = Some c"
    and r: "get_rst fs (FStr a) L ts sd True = Inr out"
    and k: "case title_levels ts (file_lines c) of [] \<Rightarrow> True | l # _ \<Rightarrow> l = k"
  shows "title_levels ts (file_lines out) =
      map (\<lambda>l. py_pos (length ts) (L + int l - int k)) (title_levels ts (file_lines c)) \<and>
    (out = [] \<or> last out = CHR 0x0A) \<and>
    (file_lines out = [] \<or> \<not> regex_match ts (hd (file_lines out))) \<and>
    descent_ok 0 (title_levels ts (file_lines c))"
proof -
  let ?lines = "file_lines c"
  let ?lv = "line_levels ts None ?lines"
  let ?outs = "map2 (adjusted_line ts L k) ?lines ?lv"
  from get_rst_FStr_success [OF f r]
  have ld: "load_with_adjusted_titles a ?lines L ts = Inr out"
    and two: "ends_with_two_newlines out" by simp_all
  from load_success [OF ld k]
  have out: "out = concat ?outs"
    and ok: "list_all (\<lambda>l. l < length ts \<and> py_pos (length ts) (L + int l - int k) < length ts)
      (levels_of ?lv)"
    and first: "?lines \<noteq> [] \<longrightarrow> \<not> regex_match ts (hd ?lines)"
    and desc: "descent_ok 0 (title_levels ts ?lines)"
    by (simp_all add: title_levels_def)
  have "lines_ok ?outs"
    using lines_ok_newlines [OF lines_ok_file_lines adjusted_lines_newlines [OF nl ok]] .
  then have fl: "file_lines out = ?outs"
    unfolding out by (rule file_lines_concat)
  have one: "title_levels ts (file_lines out) =
      map (\<lambda>l. py_pos (length ts) (L + int l - int k)) (title_levels ts ?lines)"
    unfolding fl title_levels_def line_levels_adjusted [OF d nl ok]
    by (rule levels_of_map)
  from two have two': "out = [] \<or> last out = CHR 0x0A"
    by (auto simp: ends_with_two_newlines_iff)
  have three: "file_lines out = [] \<or> \<not> regex_match ts (hd (file_lines out))"
  proof (cases ?lines)
    case Nil
    then show ?thesis unfolding fl by simp
  next
    case (Cons x xs)
    with first have nm: "\<not> regex_match ts x" by simp
    then have "line_levels ts None (x # xs) = None # line_levels ts (Some x) xs" by simp
    then have "hd ?outs = x"
      unfolding Cons by (simp add: adjusted_line_None)
    with nm show ?thesis unfolding fl by simp
  qed
  from one two' three desc show ?thesis by blast
qed

subsection \<open>The seam between two fragments\<close>

text \<open>
  Claim C10, as the code has it. Two fragments \<open>a\<close> and \<open>b\<close> are resolved without an
  exception, to the target levels \<open>La\<close> and \<open>Lb\<close>, which are not negative; the style
  table is without repetition and without the newline character. The text that
  \<open>get_rst\<close> returns for the list of the two (when the levels are equal) and for the
  dictionary of the two (when \<open>La < Lb\<close>) is the one text followed by the other. Its
  titles are the titles of the first text followed by those of the second: nothing is
  fused or lost at the seam. The first title of the second text is at most one level
  below the last title of the first, provided that \<open>Lb\<close> is not below \<open>La\<close> (as for
  the children of one list), or that \<open>Lb\<close> is one level below \<open>La\<close> and the last
  title of the fragment \<open>a\<close> is not above its first title. Nothing in the code checks
  the seam, and for \<open>Lb = La + 1\<close> the statement fails without the last condition.
\<close>

theorem seam_between_fragments:
  assumes "CHR 0x0A \<notin> set title_styles" and "distinct title_styles"
    and "fs (spec_dir @ a) = Some ca" and "fs (spec_dir @ b) = Some cb"
    and "get_rst fs (FStr a) La title_styles spec_dir True = Inr outA"
    and "get_rst fs (FStr b) Lb title_styles spec_dir True = Inr outB"
    and "0 \<le> La" and "0 \<le> Lb"
    and "title_levels title_styles (file_lines ca) = ka # lsa"
    and "Lb \<le> La \<or> (Lb \<le> La + 1 \<and> ka \<le> last (ka # lsa))"
  shows "(La = Lb \<longrightarrow>
        get_rst fs (FList [FStr a, FStr b]) La title_styles spec_dir True = Inr (outA @ outB)) \<and>
     (La < Lb \<longrightarrow>
        get_rst fs (FDict [(La, FStr a), (Lb, FStr b)]) title_level title_styles spec_dir True
          = Inr (outA @ outB)) \<and>
     title_levels title_styles (file_lines (outA @ outB)) =
       title_levels title_styles (file_lines outA) @ title_levels title_styles (file_lines outB) \<and>
     title_levels title_styles (file_lines outA) \<noteq> [] \<and>
     (title_levels title_styles (file_lines outB) \<noteq> [] \<longrightarrow>
        hd (title_levels title_styles (file_lines outB))
          \<le> last (title_levels title_styles (file_lines outA)) + 1)"
proof -
  let ?n = "length title_styles"
  obtain kb where kb: "case title_levels title_styles (file_lines cb) of
      [] \<Rightarrow> True | l # _ \<Rightarrow> l = kb"
    by (cases "title_levels title_styles (file_lines cb)") auto
  have ka: "case title_levels title_styles (file_lines ca) of [] \<Rightarrow> True | l # _ \<Rightarrow> l = ka"
    using assms(9) by simp
  from fragment_resolved [OF assms(1,2,3,5) ka]
  have ta: "title_levels title_styles (file_lines outA) =
      map (\<lambda>l. py_pos ?n (La + int l - int ka)) (ka # lsa)"
    and enda: "outA = [] \<or> last outA = CHR 0x0A"
    and ka1: "ka \<le> 1"
    unfolding assms(9) by simp_all
  from fragment_resolved [OF assms(1,2,4,6) kb]
  have tb: "title_levels title_styles (file_lines outB) =
      map (\<lambda>l. py_pos ?n (Lb + int l - int kb)) (title_levels title_styles (file_lines cb))"
    and firstb: "file_lines outB = [] \<or> \<not> regex_match title_styles (hd (file_lines outB))"
    by simp_all
  have list: "La = Lb \<Longrightarrow>
      get_rst fs (FList [FStr a, FStr b]) La title_styles spec_dir True = Inr (outA @ outB)"
    using assms(5,6) by (simp del: get_rst.simps(1) add: get_rst.simps(3))
  have dict: "La < Lb \<Longrightarrow>
      get_rst fs (FDict [(La, FStr a), (Lb, FStr b)]) title_level title_styles spec_dir True
        = Inr (outA @ outB)"
    using assms(5,6) by (simp del: get_rst.simps(1))
  have split: "title_levels title_styles (file_lines (outA @ outB)) =
      title_levels title_styles (file_lines outA) @ title_levels title_styles (file_lines outB)"
    unfolding file_lines_append [OF enda] using firstb by (rule title_levels_append)
  have nonempty: "title_levels title_styles (file_lines outA) \<noteq> []"
    unfolding ta by simp
  have lasta: "last (title_levels title_styles (file_lines outA)) =
      py_pos ?n (La + int (last (ka # lsa)) - int ka)"
    unfolding ta by (simp add: last_map)
  have seam: "hd (title_levels title_styles (file_lines outB))
      \<le> last (title_levels title_styles (file_lines outA)) + 1"
    if ne: "title_levels title_styles (file_lines outB) \<noteq> []"
  proof -
    from ne tb obtain l ls where lb: "title_levels title_styles (file_lines cb) = l # ls"
      by (cases "title_levels title_styles (file_lines cb)") auto
    with kb have "l = kb" by simp
    with tb lb have "hd (title_levels title_styles (file_lines outB)) = py_pos ?n Lb"
      by simp
    also have "\<dots> = nat Lb"
      using assms(8) by (simp add: py_pos_def)
    finally have h: "hd (title_levels title_styles (file_lines outB)) = nat Lb" .
    let ?adj = "La + int (last (ka # lsa)) - int ka"
    from assms(10) have "nat Lb \<le> py_pos ?n ?adj + 1"
    proof
      assume le: "Lb \<le> La"
      show ?thesis
      proof (cases "?adj < 0")
        case True
        with assms(7) ka1 le assms(8) have "Lb = 0" by linarith
        then show ?thesis by simp
      next
        case False
        then have "py_pos ?n ?adj = nat ?adj" by (simp add: py_pos_def)
        with False le ka1 show ?thesis by linarith
      qed
    next
      assume "Lb \<le> La + 1 \<and> ka \<le> last (ka # lsa)"
      then have le: "Lb \<le> La + 1" and up: "ka \<le> last (ka # lsa)" by simp_all
      from up assms(7) have "py_pos ?n ?adj = nat ?adj" by (simp add: py_pos_def)
      with up le assms(7) show ?thesis by linarith
    qed
    with h lasta show ?thesis by simp
  qed
  from list dict split nonempty seam show ?thesis by blast
qed

theorem seam_between_fragments_witness:
  "get_rst [''spec/a.rst'' \<mapsto> ''A\<newline>===\<newline>B\<newline>---\<newline>\<newline>'', ''spec/b.rst'' \<mapsto> ''C\<newline>===\<newline>\<newline>'']
     (FDict [(0, FStr ''a.rst''), (1, FStr ''b.rst'')]) 0 ''=-~+'' ''spec/'' True
   = Inr (''A\<newline>===\<newline>B\<newline>---\<newline>\<newline>'' @ ''C\<newline>---\<newline>\<newline>'') \<and>
   title_levels ''=-~+'' (file_lines (''A\<newline>===\<newline>B\<newline>---\<newline>\<newline>'' @ ''C\<newline>---\<newline>\<newline>'')) =
     title_levels ''=-~+'' (file_lines ''A\<newline>===\<newline>B\<newline>---\<newline>\<newline>'') @
     title_levels ''=-~+'' (file_lines ''C\<newline>---\<newline>\<newline>'') \<and>
   hd (title_levels ''=-~+'' (file_lines ''C\<newline>---\<newline>\<newline>''))
     \<le> last (title_levels ''=-~+'' (file_lines ''A\<newline>===\<newline>B\<newline>---\<newline>\<newline>'')) + 1"
proof -
  let ?fs = "[''spec/a.rst'' \<mapsto> ''A\<newline>===\<newline>B\<newline>---\<newline>\<newline>'', ''spec/b.rst'' \<mapsto> ''C\<newline>===\<newline>\<newline>'']"
  have nl: "CHR 0x0A \<notin> set ''=-~+''" and d: "distinct ''=-~+''"
    by simp_all
  have fa: "?fs (''spec/'' @ ''a.rst'') = Some ''A\<newline>===\<newline>B\<newline>---\<newline>\<newline>''"
    and fb: "?fs (''spec/'' @ ''b.rst'') = Some ''C\<newline>===\<newline>\<newline>''"
    by simp_all
  have ra: "get_rst ?fs (FStr ''a.rst'') 0 ''=-~+'' ''spec/'' True =
      Inr ''A\<newline>===\<newline>B\<newline>---\<newline>\<newline>''"
    by code_simp
  have rb: "get_rst ?fs (FStr ''b.rst'') 1 ''=-~+'' ''spec/'' True = Inr ''C\<newline>---\<newline>\<newline>''"
    by code_simp
  have la: "(0::int) \<le> 0" and lb: "(0::int) \<le> 1"
    by simp_all
  have ta: "title_levels ''=-~+'' (file_lines ''A\<newline>===\<newline>B\<newline>---\<newline>\<newline>'') = 0 # [1]"
    by code_simp
  have c: "(1::int) \<le> 0 \<or> ((1::int) \<le> 0 + 1 \<and> (0::nat) \<le> last (0 # [1]))"
    by simp
  have tb: "title_levels ''=-~+'' (file_lines ''C\<newline>---\<newline>\<newline>'') \<noteq> []"
    by code_simp
  note r = seam_between_fragments
    [where fs = ?fs and spec_dir = "''spec/''" and a = "''a.rst''" and b = "''b.rst''"
       and title_level = 0, OF nl d fa fb ra rb la lb ta c]
  from r tb show ?thesis by simp
qed

text \<open>
  The claim as it was stated: both fragments below are resolved without an exception,
  to the target levels 1 and 2 of a dictionary at level 0, so each level is at most
  one below the level before it. The first fragment starts with a title of style
  \<open>-\<close> and comes back up to \<open>=\<close>; with target level 1 its titles stay as they
  are. In the text that \<open>get_rst\<close> returns, the title levels are 1, 0, 2: at the
  seam the second fragment goes down by two levels.
\<close>

theorem seam_between_fragments_counterexample:
  "get_rst [''spec/a.rst'' \<mapsto> ''A\<newline>---\<newline>B\<newline>===\<newline>\<newline>'', ''spec/b.rst'' \<mapsto> ''C\<newline>===\<newline>\<newline>'']
     (FDict [(1, FStr ''a.rst''), (2, FStr ''b.rst'')]) 0 ''=-~+'' ''spec/'' True
   = Inr ''A\<newline>---\<newline>B\<newline>===\<newline>\<newline>C\<newline>~~~\<newline>\<newline>'' \<and>
   title_levels ''=-~+'' (file_lines ''A\<newline>---\<newline>B\<newline>===\<newline>\<newline>C\<newline>~~~\<newline>\<newline>'') = [1, 0, 2]"
  by code_simp

end
